theory Spec2Isabelle
  imports Complex_Main "HOL-Library.Char_ord" "HOL-Library.List_Lexorder" "HOL-Library.Multiset"
begin

section \<open>Values, errors and dictionaries\<close>

text \<open>
  The values that occur in a ParameterSet and in a cell of the result file.  A Python
  float is read as the real number it denotes; the sweep never computes with scores
  itself (it hands them to numpy and to the CSV writer).
\<close>

datatype pyval = PNone | PBool bool | PInt int | PFloat real | PStr string

text \<open>Python truthiness, as used by \<open>if profile:\<close>, \<open>if self.rand\<close>, \<open>if wvfp\<close>.\<close>

fun truthy :: "pyval \<Rightarrow> bool" where
  "truthy PNone = False"
| "truthy (PBool b) = b"
| "truthy (PInt i) = (i \<noteq> 0)"
| "truthy (PFloat x) = (x \<noteq> 0)"
| "truthy (PStr s) = (s \<noteq> [])"

text \<open>
  The exceptions of the script.  \<open>Exc name\<close> is an exception raised inside one of the
  external collaborators (data loader, training routines, file system).
\<close>

datatype error = NotImplementedError | ValueError | IndexError | Exc string

text \<open>
  A Python dict keeps insertion order, and the header of the result file is the key
  order of a dict, so a dict is an association list with distinct keys.
\<close>

type_synonym 'v pydict = "(string \<times> 'v) list"

text \<open>\<open>d[k] = v\<close>: overwrite in place, or append a new key.\<close>

fun dict_set :: "string \<Rightarrow> 'v \<Rightarrow> 'v pydict \<Rightarrow> 'v pydict" where
  "dict_set k v [] = [(k, v)]"
| "dict_set k v (p # ps) = (if fst p = k then (k, v) # ps else p # dict_set k v ps)"

text \<open>\<open>d.update(e)\<close>: set every item of \<open>e\<close>, in the order of \<open>e\<close>.\<close>

fun dict_update :: "'v pydict \<Rightarrow> 'v pydict \<Rightarrow> 'v pydict" where
  "dict_update d [] = d"
| "dict_update d (p # ps) = dict_update (dict_set (fst p) (snd p) d) ps"

text \<open>\<open>d.get(k, default)\<close>.\<close>

definition dict_get :: "'v pydict \<Rightarrow> string \<Rightarrow> 'v \<Rightarrow> 'v" where
  "dict_get d k dflt = (case map_of d k of None \<Rightarrow> dflt | Some v \<Rightarrow> v)"

text \<open>\<open>d.pop(k, default)\<close>: the value (or the default) and the dict without the key.\<close>

definition dict_pop :: "string \<Rightarrow> 'v \<Rightarrow> 'v pydict \<Rightarrow> 'v \<times> 'v pydict" where
  "dict_pop k dflt d = (dict_get d k dflt, filter (\<lambda>p. fst p \<noteq> k) d)"

definition keys :: "'v pydict \<Rightarrow> string list" where
  "keys d = map fst d"

section \<open>The grid generator\<close>

definition crossnet_names :: "string list" where
  "crossnet_names = [''crossnet'', ''cn'', ''CrossNet'', ''crossNet'']"

definition memnet_names :: "string list" where
  "memnet_names = [''memnet'', ''MemNet'', ''mn'', ''memNet'', ''AttNet'', ''attnet'']"

definition transformer_names :: "string list" where
  "transformer_names = [''tf'', ''transformer'', ''Transformer'']"

text \<open>The model names of the three recognised families.\<close>

definition supported :: "string \<Rightarrow> bool" where
  "supported modelname \<longleftrightarrow>
     modelname \<in> set crossnet_names \<or> modelname \<in> set memnet_names
     \<or> modelname \<in> set transformer_names"

text \<open>
  \<open>sklearn.model_selection.ParameterGrid\<close> over one dict of candidate lists, turned into a
  list: the items are sorted by key, and the cartesian product of the value lists is
  enumerated with the last key varying fastest (\<open>itertools.product\<close>); every combination
  is zipped with the sorted keys.
\<close>

definition ParameterGrid :: "pyval list pydict \<Rightarrow> pyval pydict list" where
  "ParameterGrid p =
     (let items = sort_key fst p
      in map (zip (map fst items)) (product_lists (map snd items)))"

text \<open>Lines 25--52 of \<open>get_param_grid\<close>: the dict of candidate values for a model name.\<close>

definition grid_combs :: "string \<Rightarrow> error + pyval list pydict" where
  "grid_combs modelname =
     (let param_combs =
        [(''max_vocabsize'', [PInt 100000, PInt 200000, PInt 300000]),
         (''max_seqlen'', [PInt 20, PInt 40]),
         (''max_tgtlen'', [PInt 1]),
         (''profile'', [PBool False, PBool True]),
         (''max_prflen'', [PInt 20, PInt 40]),
         (''dropout'', [PFloat 0.1, PFloat 0.3, PFloat 0.6, PFloat 0.9]),
         (''lr'', [PFloat 0.1, PFloat 0.01, PFloat 0.001, PFloat 0.0001]),
         (''validation_split'', [PFloat 0.2]),
         (''epochs'', [PInt 200]),
         (''batch_size'', [PInt 32, PInt 64, PInt 128, PInt 256]),
         (''patience'', [PInt 30])]
      in if modelname \<in> set crossnet_names then
           Inr (dict_set ''dim_dense'' [PInt 100, PInt 200, PInt 300]
               (dict_set ''num_reason'' [PInt 1, PInt 2, PInt 3]
               (dict_set ''dim_lstm'' [PInt 100, PInt 200, PInt 300] param_combs)))
         else if modelname \<in> set memnet_names then
           Inr (dict_set ''num_layers'' [PInt 1, PInt 2, PInt 3, PInt 4]
               (dict_set ''dim_lstm'' [PInt 100, PInt 200, PInt 300] param_combs))
         else if modelname \<in> set transformer_names then
           Inr (dict_set ''num_layers'' [PInt 1, PInt 2, PInt 3, PInt 4]
               (dict_set ''num_head'' [PInt 2, PInt 4, PInt 8]
               (dict_set ''target'' [PBool False, PBool True] param_combs)))
         else Inl NotImplementedError)"

definition get_param_grid :: "string \<Rightarrow> error + pyval pydict list" where
  "get_param_grid modelname =
     (case grid_combs modelname of
        Inl e \<Rightarrow> Inl e
      | Inr param_combs \<Rightarrow> Inr (ParameterGrid param_combs))"

text \<open>\<open>filter_useless_combs\<close>: the skip predicate of the sweep; it never skips.\<close>

definition filter_useless_combs :: "pyval pydict \<Rightarrow> bool" where
  "filter_useless_combs params = False"

section \<open>The random sampler\<close>

text \<open>
  The state of numpy's global generator is a stream of raw draws.  The three sampling
  functions are modelled at the level of their documented contract: \<open>choice\<close> picks a
  member of its list, \<open>randint low high\<close> an integer in \<open>[low, high)\<close>, and
  \<open>uniform low high\<close> a number \<open>low + (high - low) * u\<close> for a 53-bit fraction \<open>u\<close> in
  \<open>[0, 1)\<close>.  Every call in the script has a non-empty list and \<open>low < high\<close>, the cases
  in which numpy does not raise.
\<close>

type_synonym rng = "nat \<Rightarrow> nat"

definition choice :: "'a list \<Rightarrow> rng \<Rightarrow> 'a \<times> rng" where
  "choice xs r = (xs ! (r 0 mod length xs), r \<circ> Suc)"

definition randint :: "int \<Rightarrow> int \<Rightarrow> rng \<Rightarrow> int \<times> rng" where
  "randint low high r = (low + int (r 0 mod nat (high - low)), r \<circ> Suc)"

definition uniform :: "real \<Rightarrow> real \<Rightarrow> rng \<Rightarrow> real \<times> rng" where
  "uniform low high r =
     (low + (high - low) * (real (r 0 mod 2 ^ 53) / 2 ^ 53), r \<circ> Suc)"

text \<open>
  \<open>randsample_params\<close>.  The generic values are drawn (in the order of the keyword
  arguments of \<open>dict(...)\<close>) before the model name is looked at, so an unsupported name
  raises after seven draws.
\<close>

definition randsample_params :: "string \<Rightarrow> rng \<Rightarrow> (error + pyval pydict) \<times> rng" where
  "randsample_params modelname r0 =
     (let (max_seqlen, r1) = choice [PInt 20, PInt 40] r0;
          (profile, r2) = choice [PBool False, PBool True] r1;
          (prf_cat, r3) = choice [PBool False, PBool True] r2;
          (max_prflen, r4) = choice [PInt 20, PInt 40] r3;
          (dropout, r5) = uniform 0.1 0.5 r4;
          (lr_exp, r6) = uniform (- 5) (- 1) r5;
          (bs_exp, r7) = randint 5 9 r6;
          param_combs =
            [(''max_vocabsize'', PInt 10000),
             (''max_seqlen'', max_seqlen),
             (''max_tgtlen'', PInt 1),
             (''profile'', profile),
             (''prf_cat'', prf_cat),
             (''max_prflen'', max_prflen),
             (''dropout'', PFloat dropout),
             (''lr'', PFloat (10 powr lr_exp)),
             (''validation_split'', PFloat 0.2),
             (''epochs'', PInt 200),
             (''batch_size'', PInt (2 ^ nat bs_exp)),
             (''patience'', PInt 30)]
      in if modelname \<in> set crossnet_names then
           (let (a, r8) = randint 1 6 r7;
                (b, r9) = randint 1 6 r8
            in (Inr (dict_set ''dim_dense'' (PInt (100 * b))
                    (dict_set ''num_reason'' (PInt 1)
                    (dict_set ''dim_lstm'' (PInt (100 * a)) param_combs))), r9))
         else if modelname \<in> set memnet_names then
           (let (a, r8) = randint 1 6 r7;
                (b, r9) = randint 1 5 r8;
                (c, r10) = choice [PBool False, PBool True] r9
            in (Inr (dict_set ''weight_tying'' c
                    (dict_set ''num_layers'' (PInt b)
                    (dict_set ''dim_lstm'' (PInt (100 * a)) param_combs))), r10))
         else if modelname \<in> set transformer_names then
           (let (a, r8) = randint 1 4 r7;
                (b, r9) = randint 1 5 r8
            in (Inr (dict_set ''num_layers'' (PInt b)
                    (dict_set ''num_head'' (PInt (2 ^ nat a))
                    (dict_set ''parallel'' (PInt 1)
                    (dict_set ''target'' (PInt 1) param_combs)))), r9))
         else (Inl NotImplementedError, r7))"

text \<open>
  The range or choice set that \<open>randsample_params\<close> declares for each parameter name: the
  argument list of \<open>choice\<close>, the bounds of \<open>randint\<close> and \<open>uniform\<close> carried through the
  arithmetic around them, or the constant.  The two \<open>uniform\<close> intervals are taken closed:
  numpy documents that rounding may return the upper bound.  A name the sampler never
  sets has no declared range.
\<close>

definition declared_range :: "string \<Rightarrow> pyval \<Rightarrow> bool" where
  "declared_range k v =
     (if k = ''max_vocabsize'' then v = PInt 10000
      else if k = ''max_seqlen'' then v \<in> {PInt 20, PInt 40}
      else if k = ''max_tgtlen'' then v = PInt 1
      else if k = ''profile'' then v \<in> {PBool False, PBool True}
      else if k = ''prf_cat'' then v \<in> {PBool False, PBool True}
      else if k = ''max_prflen'' then v \<in> {PInt 20, PInt 40}
      else if k = ''dropout'' then
        (case v of PFloat x \<Rightarrow> 1 / 10 \<le> x \<and> x \<le> 1 / 2 | _ \<Rightarrow> False)
      else if k = ''lr'' then
        (case v of PFloat x \<Rightarrow> 1 / 100000 \<le> x \<and> x \<le> 1 / 10 | _ \<Rightarrow> False)
      else if k = ''validation_split'' then v = PFloat 0.2
      else if k = ''epochs'' then v = PInt 200
      else if k = ''batch_size'' then v \<in> {PInt 32, PInt 64, PInt 128, PInt 256}
      else if k = ''patience'' then v = PInt 30
      else if k = ''dim_lstm'' then
        v \<in> {PInt 100, PInt 200, PInt 300, PInt 400, PInt 500}
      else if k = ''num_reason'' then v = PInt 1
      else if k = ''dim_dense'' then
        v \<in> {PInt 100, PInt 200, PInt 300, PInt 400, PInt 500}
      else if k = ''num_layers'' then v \<in> {PInt 1, PInt 2, PInt 3, PInt 4}
      else if k = ''weight_tying'' then v \<in> {PBool False, PBool True}
      else if k = ''target'' then v = PInt 1
      else if k = ''parallel'' then v = PInt 1
      else if k = ''num_head'' then v \<in> {PInt 2, PInt 4, PInt 8}
      else False)"

section \<open>The sweep controller\<close>

subsection \<open>Strings and paths\<close>

text \<open>\<open>str(n)\<close> for a natural number: its decimal digits.\<close>

definition digit_char :: "nat \<Rightarrow> char" where
  "digit_char d = ''0123456789'' ! d"

fun str_nat :: "nat \<Rightarrow> string" where
  "str_nat n = (if n < 10 then [digit_char n] else str_nat (n div 10) @ [digit_char (n mod 10)])"

text \<open>The name \<open>f'fmacro_{i+1}'\<close> of the score column of repetition \<open>i\<close> (counted from 0).\<close>

definition fmacro_key :: "nat \<Rightarrow> string" where
  "fmacro_key i = ''fmacro_'' @ str_nat (i + 1)"

text \<open>\<open>os.path.join\<close> of two components (posixpath).\<close>

definition path_join :: "string \<Rightarrow> string \<Rightarrow> string" where
  "path_join a b =
     (if b \<noteq> [] \<and> hd b = CHR ''/'' then b
      else if a = [] \<or> last a = CHR ''/'' then a @ b
      else a @ ''/'' @ b)"

subsection \<open>The world outside the controller\<close>

text \<open>
  The external collaborators, as parameters: the data loader (file path and profile flag;
  \<open>target\<close> is always \<open>'all'\<close>), the two training routines and numpy's two statistics.
  \<open>'d\<close> is the pair of arrays \<open>(x, y)\<close> that \<open>load_data\<close> returns.  Training is not
  deterministic, so the training routines also see how many external calls were made
  before.  Each of them may raise.
\<close>

record 'd externals =
  load_data :: "string \<Rightarrow> bool \<Rightarrow> error + 'd"
  run_fixed_fast ::
    "nat \<Rightarrow> string \<Rightarrow> 'd \<Rightarrow> 'd \<Rightarrow> string option \<Rightarrow> pyval \<Rightarrow> pyval pydict \<Rightarrow> error + real"
  run_xval ::
    "nat \<Rightarrow> string \<Rightarrow> 'd \<Rightarrow> string option \<Rightarrow> pyval \<Rightarrow> int \<Rightarrow> pyval pydict \<Rightarrow> error + real list"
  np_average :: "real list \<Rightarrow> pyval"
  np_std :: "real list \<Rightarrow> pyval"

datatype 'd call =
    LoadData string bool
  | RunFixedFast string 'd 'd "string option" pyval "pyval pydict"
  | RunXval string 'd "string option" pyval int "pyval pydict"

text \<open>
  What the controller changes outside itself: the random generator, the files it opens
  for writing (log file and result file, in order), the rows handed to the CSV writer of
  the result file, whether that file has been closed, and the calls made to the data
  loader and the training routines.  \<open>today\<close> is the start date formatted \<open>%d%b%Y\<close>;
  \<open>writable\<close> tells which paths can be opened for writing.  Log messages are not
  modelled.
\<close>

record 'd world =
  rng :: rng
  today :: string
  writable :: "string \<Rightarrow> bool"
  opened :: "string list"
  csv :: "pyval list list"
  csv_closed :: bool
  calls :: "'d call list"

subsection \<open>Construction\<close>

record gridsearch =
  model :: string
  path :: string
  wvfp :: "string option"
  rand :: "int option"
  repeat :: int
  cv :: int
  basename :: string
  param_grid :: "pyval pydict list"
  fieldnames :: "string list"

text \<open>\<open>[randsample_params(model) for _ in range(rand)]\<close>.\<close>

fun sample_n :: "string \<Rightarrow> nat \<Rightarrow> rng \<Rightarrow> (error + pyval pydict list) \<times> rng" where
  "sample_n m 0 r = (Inr [], r)"
| "sample_n m (Suc n) r =
     (case randsample_params m r of
        (Inl e, r1) \<Rightarrow> (Inl e, r1)
      | (Inr p, r1) \<Rightarrow>
          (case sample_n m n r1 of
             (Inl e, r2) \<Rightarrow> (Inl e, r2)
           | (Inr ps, r2) \<Rightarrow> (Inr (p # ps), r2)))"

text \<open>
  \<open>GridSearch.__init__\<close>.  \<open>logging.basicConfig(filename=...)\<close> opens the log file; the
  result file is opened (and truncated) before the header is computed from the first
  ParameterSet, so an empty parameter space raises \<open>IndexError\<close> with the file open.
\<close>

definition init ::
  "string \<Rightarrow> string option \<Rightarrow> int option \<Rightarrow> int \<Rightarrow> int \<Rightarrow> string \<Rightarrow> string option
   \<Rightarrow> 'd world \<Rightarrow> (error + gridsearch) \<times> 'd world" where
  "init model_arg wvfp_arg rand_arg repeat_arg cv_arg path_arg logging_filename w =
     (if model_arg = ''svm'' then (Inl ValueError, w)
      else
        let wv = (case wvfp_arg of
                    None \<Rightarrow> None
                  | Some f \<Rightarrow> if f = [] then None else Some (path_join path_arg f));
            rand_on = (case rand_arg of None \<Rightarrow> False | Some n \<Rightarrow> n \<noteq> 0);
            sn = (if rand_on then ''random'' else ''grid'');
            bn = sn @ ''_search-'' @ model_arg @ ''-'' @ today w;
            logfile = (case logging_filename of
                         None \<Rightarrow> bn @ ''.log''
                       | Some f \<Rightarrow> if f = [] then bn @ ''.log'' else f)
        in if \<not> writable w logfile then (Inl (Exc ''OSError''), w)
           else
             let w1 = w\<lparr>opened := opened w @ [logfile]\<rparr>
             in case (case rand_arg of
                        None \<Rightarrow> (get_param_grid model_arg, rng w1)
                      | Some n \<Rightarrow>
                          if n \<noteq> 0 then sample_n model_arg (nat n) (rng w1)
                          else (get_param_grid model_arg, rng w1)) of
                  (Inl e, r) \<Rightarrow> (Inl e, w1\<lparr>rng := r\<rparr>)
                | (Inr grid, r) \<Rightarrow>
                    let w2 = w1\<lparr>rng := r\<rparr>
                    in if \<not> writable w2 (bn @ ''.csv'') then (Inl (Exc ''OSError''), w2)
                       else
                         let w3 = w2\<lparr>opened := opened w2 @ [bn @ ''.csv''],
                                      csv := [], csv_closed := False\<rparr>
                         in case grid of
                              [] \<Rightarrow> (Inl IndexError, w3)
                            | first # _ \<Rightarrow>
                                let header = keys first
                                      @ map fmacro_key [0..<nat repeat_arg]
                                      @ [''fmacro_avg'', ''fmacro_std'']
                                in (Inr \<lparr>model = model_arg, path = path_arg, wvfp = wv,
                                         rand = rand_arg, repeat = repeat_arg, cv = cv_arg,
                                         basename = bn, param_grid = grid,
                                         fieldnames = header\<rparr>,
                                    w3\<lparr>csv := [map PStr header]\<rparr>))"

subsection \<open>Writing a result row\<close>

text \<open>
  \<open>csv.DictWriter\<close> with the default \<open>extrasaction='raise'\<close> and \<open>restval=''\<close>: a key
  of the row that is not a field name raises \<open>ValueError\<close>; a field name that is not a
  key of the row gives an empty cell.  Writing to a closed file raises \<open>ValueError\<close> too.
\<close>

definition dict_to_list :: "string list \<Rightarrow> pyval pydict \<Rightarrow> pyval list" where
  "dict_to_list names row = map (\<lambda>k. dict_get row k (PStr [])) names"

definition writerow :: "string list \<Rightarrow> pyval pydict \<Rightarrow> 'd world \<Rightarrow> (error + unit) \<times> 'd world" where
  "writerow names row w =
     (if \<exists>k \<in> set (keys row). k \<notin> set names then (Inl ValueError, w)
      else if csv_closed w then (Inl ValueError, w)
      else (Inr (), w\<lparr>csv := csv w @ [dict_to_list names row]\<rparr>))"

text \<open>The row dict that \<open>GridSearch._result2csvrow\<close> builds (lines 264--273).\<close>

definition result_row :: "'d externals \<Rightarrow> pyval pydict \<Rightarrow> real list \<Rightarrow> pyval pydict" where
  "result_row ext params fmacro_list =
     (let average = np_average ext fmacro_list;
          stdev = np_std ext fmacro_list;
          row = dict_update []
                  (map (\<lambda>(i, v). (fmacro_key i, PFloat v)) (enumerate 0 fmacro_list));
          row1 = dict_update row [(''fmacro_avg'', average), (''fmacro_std'', stdev)]
      in dict_update row1 params)"

text \<open>\<open>GridSearch._result2csvrow\<close>.\<close>

definition result2csvrow ::
  "'d externals \<Rightarrow> gridsearch \<Rightarrow> pyval pydict \<Rightarrow> real list \<Rightarrow> 'd world
   \<Rightarrow> (error + unit) \<times> 'd world" where
  "result2csvrow ext gs params fmacro_list w =
     writerow (fieldnames gs) (result_row ext params fmacro_list) w"

subsection \<open>The sweep loop\<close>

text \<open>
  \<open>for params in self.param_grid: body\<close>.  The body changes the dict it is given
  (\<open>params.pop\<close>), and that dict is the one inside \<open>self.param_grid\<close>, so the loop returns
  the parameter sets as the bodies leave them.  An exception raised by a body ends the
  loop.
\<close>

fun for_params ::
  "(pyval pydict \<Rightarrow> 'd world \<Rightarrow> (error + pyval pydict) \<times> 'd world) \<Rightarrow> pyval pydict list
   \<Rightarrow> 'd world \<Rightarrow> (error + pyval pydict list) \<times> 'd world" where
  "for_params body [] w = (Inr [], w)"
| "for_params body (params # rest) w =
     (case body params w of
        (Inl e, w1) \<Rightarrow> (Inl e, w1)
      | (Inr params1, w1) \<Rightarrow>
          (case for_params body rest w1 of
             (Inl e, w2) \<Rightarrow> (Inl e, w2)
           | (Inr done, w2) \<Rightarrow> (Inr (params1 # done), w2)))"

text \<open>A logged call of the data loader.\<close>

definition call_load_data ::
  "'d externals \<Rightarrow> string \<Rightarrow> bool \<Rightarrow> 'd world \<Rightarrow> (error + 'd) \<times> 'd world" where
  "call_load_data ext fp prof w =
     (load_data ext fp prof, w\<lparr>calls := calls w @ [LoadData fp prof]\<rparr>)"

subsection \<open>The fixed operation\<close>

text \<open>
  One pass of the body of the repetition loop: the profile flag selects the data
  variant handed to \<open>run_fixed_fast\<close>.
\<close>

definition call_run_fixed_fast ::
  "'d externals \<Rightarrow> gridsearch \<Rightarrow> ('d \<times> 'd) \<Rightarrow> ('d \<times> 'd) \<Rightarrow> pyval \<Rightarrow> pyval pydict \<Rightarrow> 'd world
   \<Rightarrow> (error + real) \<times> 'd world" where
  "call_run_fixed_fast ext gs plain prof profile params w =
     (let (train, test) = (if truthy profile then prof else plain)
      in (run_fixed_fast ext (length (calls w)) (model gs) train test (wvfp gs) profile params,
          w\<lparr>calls := calls w @ [RunFixedFast (model gs) train test (wvfp gs) profile params]\<rparr>))"

text \<open>\<open>for i in range(self.repeat)\<close>, collecting \<open>fmacro_list\<close>.\<close>

fun repeat_runs ::
  "'d externals \<Rightarrow> gridsearch \<Rightarrow> ('d \<times> 'd) \<Rightarrow> ('d \<times> 'd) \<Rightarrow> pyval \<Rightarrow> pyval pydict \<Rightarrow> nat
   \<Rightarrow> 'd world \<Rightarrow> (error + real list) \<times> 'd world" where
  "repeat_runs ext gs plain prof profile params 0 w = (Inr [], w)"
| "repeat_runs ext gs plain prof profile params (Suc n) w =
     (case call_run_fixed_fast ext gs plain prof profile params w of
        (Inl e, w1) \<Rightarrow> (Inl e, w1)
      | (Inr fmacro, w1) \<Rightarrow>
          (case repeat_runs ext gs plain prof profile params n w1 of
             (Inl e, w2) \<Rightarrow> (Inl e, w2)
           | (Inr rest, w2) \<Rightarrow> (Inr (fmacro # rest), w2)))"

text \<open>The body of the sweep loop of \<open>fixed\<close> (lines 203--225).\<close>

definition fixed_body ::
  "'d externals \<Rightarrow> gridsearch \<Rightarrow> ('d \<times> 'd) \<Rightarrow> ('d \<times> 'd) \<Rightarrow> pyval pydict \<Rightarrow> 'd world
   \<Rightarrow> (error + pyval pydict) \<times> 'd world" where
  "fixed_body ext gs plain prof params w =
     (if filter_useless_combs params then (Inr params, w)
      else
        let (profile, params1) = dict_pop ''profile'' PNone params
        in case repeat_runs ext gs plain prof profile params1 (nat (repeat gs)) w of
             (Inl e, w1) \<Rightarrow> (Inl e, w1)
           | (Inr fmacro_list, w1) \<Rightarrow>
               (case result2csvrow ext gs params1 fmacro_list w1 of
                  (Inl e, w2) \<Rightarrow> (Inl e, w2)
                | (Inr u, w2) \<Rightarrow> (Inr params1, w2)))"

text \<open>\<open>GridSearch.fixed\<close>: four loads, the sweep, and the result file is closed.\<close>

definition fixed ::
  "'d externals \<Rightarrow> gridsearch \<Rightarrow> string \<Rightarrow> string \<Rightarrow> 'd world
   \<Rightarrow> (error + gridsearch) \<times> 'd world" where
  "fixed ext gs trainfp testfp w =
     (let trainfp1 = path_join (path gs) trainfp;
          testfp1 = path_join (path gs) testfp
      in case call_load_data ext trainfp1 False w of
           (Inl e, w1) \<Rightarrow> (Inl e, w1)
         | (Inr train_arys, w1) \<Rightarrow>
         (case call_load_data ext trainfp1 True w1 of
           (Inl e, w2) \<Rightarrow> (Inl e, w2)
         | (Inr train_arys_p, w2) \<Rightarrow>
         (case call_load_data ext testfp1 False w2 of
           (Inl e, w3) \<Rightarrow> (Inl e, w3)
         | (Inr test_arys, w3) \<Rightarrow>
         (case call_load_data ext testfp1 True w3 of
           (Inl e, w4) \<Rightarrow> (Inl e, w4)
         | (Inr test_arys_p, w4) \<Rightarrow>
         (case for_params
                 (fixed_body ext gs (train_arys, test_arys) (train_arys_p, test_arys_p))
                 (param_grid gs) w4 of
           (Inl e, w5) \<Rightarrow> (Inl e, w5)
         | (Inr grid, w5) \<Rightarrow>
             (Inr (gs\<lparr>param_grid := grid\<rparr>), w5\<lparr>csv_closed := True\<rparr>))))))"

subsection \<open>The cross-validation operation\<close>

definition call_run_xval ::
  "'d externals \<Rightarrow> gridsearch \<Rightarrow> 'd \<Rightarrow> 'd \<Rightarrow> pyval \<Rightarrow> pyval pydict \<Rightarrow> 'd world
   \<Rightarrow> (error + real list) \<times> 'd world" where
  "call_run_xval ext gs plain prof profile params w =
     (let arys = (if truthy profile then prof else plain)
      in (run_xval ext (length (calls w)) (model gs) arys (wvfp gs) profile (cv gs) params,
          w\<lparr>calls := calls w @ [RunXval (model gs) arys (wvfp gs) profile (cv gs) params]\<rparr>))"

text \<open>The body of the sweep loop of \<open>xval\<close> (lines 248--260).\<close>

definition xval_body ::
  "'d externals \<Rightarrow> gridsearch \<Rightarrow> 'd \<Rightarrow> 'd \<Rightarrow> pyval pydict \<Rightarrow> 'd world
   \<Rightarrow> (error + pyval pydict) \<times> 'd world" where
  "xval_body ext gs plain prof params w =
     (if filter_useless_combs params then (Inr params, w)
      else
        let (profile, params1) = dict_pop ''profile'' PNone params
        in case call_run_xval ext gs plain prof profile params1 w of
             (Inl e, w1) \<Rightarrow> (Inl e, w1)
           | (Inr fmacro_list, w1) \<Rightarrow>
               (case result2csvrow ext gs params1 fmacro_list w1 of
                  (Inl e, w2) \<Rightarrow> (Inl e, w2)
                | (Inr u, w2) \<Rightarrow> (Inr params1, w2)))"

text \<open>\<open>GridSearch.xval\<close>.\<close>

definition xval ::
  "'d externals \<Rightarrow> gridsearch \<Rightarrow> string \<Rightarrow> 'd world \<Rightarrow> (error + gridsearch) \<times> 'd world" where
  "xval ext gs datafp w =
     (let datafp1 = path_join (path gs) datafp
      in case call_load_data ext datafp1 False w of
           (Inl e, w1) \<Rightarrow> (Inl e, w1)
         | (Inr arys, w1) \<Rightarrow>
         (case call_load_data ext datafp1 True w1 of
           (Inl e, w2) \<Rightarrow> (Inl e, w2)
         | (Inr arys_p, w2) \<Rightarrow>
         (case for_params (xval_body ext gs arys arys_p) (param_grid gs) w2 of
           (Inl e, w3) \<Rightarrow> (Inl e, w3)
         | (Inr grid, w3) \<Rightarrow>
             (Inr (gs\<lparr>param_grid := grid\<rparr>), w3\<lparr>csv_closed := True\<rparr>))))"

subsection \<open>Reading the call log\<close>

text \<open>
  The exception, if any, that a logged call raised: the answer of the external routine
  to the call that stands at position \<open>n\<close> of the log.
\<close>

fun raised :: "'d externals \<Rightarrow> nat \<Rightarrow> 'd call \<Rightarrow> error option" where
  "raised ext n (LoadData fp prof) =
     (case load_data ext fp prof of Inl e \<Rightarrow> Some e | Inr d \<Rightarrow> None)"
| "raised ext n (RunFixedFast m train test wv profile params) =
     (case run_fixed_fast ext n m train test wv profile params of
        Inl e \<Rightarrow> Some e | Inr x \<Rightarrow> None)"
| "raised ext n (RunXval m arys wv profile k params) =
     (case run_xval ext n m arys wv profile k params of Inl e \<Rightarrow> Some e | Inr xs \<Rightarrow> None)"


text \<open>
  The exception an operation ended with, and what it means for a stretch of the log
  (starting at position \<open>n0\<close>) to belong to an operation with that outcome: a call that
  raised is the last one of the stretch, and its exception is the outcome.
\<close>

definition err_of :: "error + 'a \<Rightarrow> error option" where
  "err_of r = (case r of Inl e \<Rightarrow> Some e | Inr x \<Rightarrow> None)"

definition trace_ok :: "'d externals \<Rightarrow> nat \<Rightarrow> error option \<Rightarrow> 'd call list \<Rightarrow> bool" where
  "trace_ok ext n0 outcome cs \<longleftrightarrow>
     (\<forall>i < length cs. \<forall>e. raised ext (n0 + i) (cs ! i) = Some e
        \<longrightarrow> outcome = Some e \<and> Suc i = length cs)"

subsection \<open>Auxiliary notions for the proofs\<close>

text \<open>
  The two loop bodies differ only in how they obtain the score sequence; \<open>gen_body\<close> is
  their common shape, with that part as the parameter \<open>run\<close>.
\<close>

definition gen_body ::
  "'d externals \<Rightarrow> gridsearch
   \<Rightarrow> (pyval \<Rightarrow> pyval pydict \<Rightarrow> 'd world \<Rightarrow> (error + real list) \<times> 'd world)
   \<Rightarrow> pyval pydict \<Rightarrow> 'd world \<Rightarrow> (error + pyval pydict) \<times> 'd world" where
  "gen_body ext gs run params w =
     (let (profile, params1) = dict_pop ''profile'' PNone params
      in case run profile params1 w of
           (Inl e, w1) \<Rightarrow> (Inl e, w1)
         | (Inr fmacro_list, w1) \<Rightarrow>
             (case result2csvrow ext gs params1 fmacro_list w1 of
                (Inl e, w2) \<Rightarrow> (Inl e, w2)
              | (Inr u, w2) \<Rightarrow> (Inr params1, w2)))"

text \<open>
  What the generators guarantee about the keys of a parameter space: all ParameterSets
  have the same keys, \<open>profile\<close> is one of them, and none looks like a score column.
\<close>

definition param_keys_ok :: "pyval pydict list \<Rightarrow> bool" where
  "param_keys_ok g \<longleftrightarrow>
     (\<forall>p \<in> set g. \<forall>q \<in> set g. set (keys p) = set (keys q))
     \<and> (\<forall>p \<in> set g. ''profile'' \<in> set (keys p))
     \<and> (\<forall>p \<in> set g. \<forall>k \<in> set (keys p). take 7 k \<noteq> ''fmacro_'')"

text \<open>The popped ParameterSet: what \<open>params.pop('profile', None)\<close> leaves of the dict.\<close>

definition popped :: "pyval pydict \<Rightarrow> pyval pydict" where
  "popped params = snd (dict_pop ''profile'' PNone params)"

text \<open>
  What a part of an operation that ends with \<open>outcome\<close> may do to the world: it appends
  calls to the log (in the sense of \<open>trace_ok\<close>), it appends rows with the property \<open>P\<close>
  to the result file, and it does not close the file.
\<close>

definition logged ::
  "'d externals \<Rightarrow> (pyval list \<Rightarrow> bool) \<Rightarrow> 'd world \<Rightarrow> error option \<Rightarrow> 'd world \<Rightarrow> bool" where
  "logged ext P w outcome w1 \<longleftrightarrow>
     (\<exists>cs rows. calls w1 = calls w @ cs \<and> trace_ok ext (length (calls w)) outcome cs
        \<and> csv w1 = csv w @ rows \<and> (\<forall>row \<in> set rows. P row)
        \<and> csv_closed w1 = csv_closed w)"

subsection \<open>Example inputs\<close>

text \<open>
  A world before any construction; external routines that never raise (the data loader
  returns its arguments, a training run returns a score made from its position in the
  log, cross-validation returns one score per fold, the statistics are the elementary
  mean and a constant); the same routines with a training run that raises when it is
  the call at position 5 of the log; and a small controller, with the world in which its
  result file holds the header.
\<close>

definition demo_world :: "(string \<times> bool) world" where
  "demo_world = \<lparr>rng = (\<lambda>i. i), today = ''04Nov2026'', writable = (\<lambda>f. True),
     opened = [], csv = [], csv_closed = True, calls = []\<rparr>"

definition demo_ext :: "(string \<times> bool) externals" where
  "demo_ext = \<lparr>load_data = (\<lambda>fp prof. Inr (fp, prof)),
     run_fixed_fast = (\<lambda>n m train test wv profile params. Inr (real n / 10)),
     run_xval = (\<lambda>n m arys wv profile k params. Inr (replicate (nat k) (1 / 2))),
     np_average = (\<lambda>xs. PFloat (sum_list xs / real (length xs))),
     np_std = (\<lambda>xs. PFloat 0)\<rparr>"

definition failing_ext :: "(string \<times> bool) externals" where
  "failing_ext = demo_ext\<lparr>run_fixed_fast :=
     (\<lambda>n m train test wv profile params.
        if n = 5 then Inl (Exc ''ResourceExhaustedError'') else Inr (real n / 10))\<rparr>"

definition demo_gs :: gridsearch where
  "demo_gs = \<lparr>model = ''cn'', path = ''data'', wvfp = None, rand = None, repeat = 1, cv = 3,
     basename = ''grid_search-cn-04Nov2026'',
     param_grid = [[(''profile'', PBool True), (''lr'', PFloat 0.1)],
                   [(''profile'', PBool False), (''lr'', PFloat 0.01)],
                   [(''profile'', PBool False), (''lr'', PFloat 0.001)]],
     fieldnames = [''profile'', ''lr'', ''fmacro_1'', ''fmacro_avg'', ''fmacro_std'']\<rparr>"

definition demo_open :: "(string \<times> bool) world" where
  "demo_open = demo_world\<lparr>opened := [''grid_search-cn-04Nov2026.log'',
       ''grid_search-cn-04Nov2026.csv''],
     csv := [map PStr (fieldnames demo_gs)], csv_closed := False\<rparr>"

section \<open>Properties of the generators\<close>

subsection \<open>Size of the grid\<close>


lemma length_ParameterGrid:
  "length (ParameterGrid p) = prod_list (map (length \<circ> snd) p)"
proof -
  have "length (ParameterGrid p) = prod_list (map length (map snd (sort_key fst p)))"
    by (simp add: ParameterGrid_def Let_def length_product_lists prod_list.eq_foldr)
  also have "\<dots> = prod_mset (image_mset (length \<circ> snd) (mset (sort_key fst p)))"
    by (simp add: prod_mset_prod_list [symmetric] del: mset_sort)
  also have "\<dots> = prod_list (map (length \<circ> snd) p)"
    by (simp add: prod_mset_prod_list [symmetric])
  finally show ?thesis .
qed

lemma grid_combs_crossnet:
  "m \<in> set crossnet_names \<Longrightarrow>
     \<exists>pc. grid_combs m = Inr pc
       \<and> keys pc = [''max_vocabsize'', ''max_seqlen'', ''max_tgtlen'', ''profile'',
             ''max_prflen'', ''dropout'', ''lr'', ''validation_split'', ''epochs'',
             ''batch_size'', ''patience'', ''dim_lstm'', ''num_reason'', ''dim_dense'']
       \<and> map (length \<circ> snd) pc = [3, 2, 1, 2, 2, 4, 4, 1, 1, 4, 1, 3, 3, 3]"
  by (auto simp add: grid_combs_def keys_def crossnet_names_def)

lemma grid_combs_memnet:
  "m \<in> set memnet_names \<Longrightarrow>
     \<exists>pc. grid_combs m = Inr pc
       \<and> keys pc = [''max_vocabsize'', ''max_seqlen'', ''max_tgtlen'', ''profile'',
             ''max_prflen'', ''dropout'', ''lr'', ''validation_split'', ''epochs'',
             ''batch_size'', ''patience'', ''dim_lstm'', ''num_layers'']
       \<and> map (length \<circ> snd) pc = [3, 2, 1, 2, 2, 4, 4, 1, 1, 4, 1, 3, 4]"
  by (auto simp add: grid_combs_def keys_def memnet_names_def crossnet_names_def)

lemma grid_combs_transformer:
  "m \<in> set transformer_names \<Longrightarrow>
     \<exists>pc. grid_combs m = Inr pc
       \<and> keys pc = [''max_vocabsize'', ''max_seqlen'', ''max_tgtlen'', ''profile'',
             ''max_prflen'', ''dropout'', ''lr'', ''validation_split'', ''epochs'',
             ''batch_size'', ''patience'', ''target'', ''num_head'', ''num_layers'']
       \<and> map (length \<circ> snd) pc = [3, 2, 1, 2, 2, 4, 4, 1, 1, 4, 1, 2, 3, 4]"
  by (auto simp add: grid_combs_def keys_def memnet_names_def crossnet_names_def
        transformer_names_def)

lemma grid_combs_supported:
  assumes "supported m"
  shows "\<exists>pc. grid_combs m = Inr pc"
proof -
  consider "m \<in> set crossnet_names" | "m \<in> set memnet_names" | "m \<in> set transformer_names"
    using assms unfolding supported_def by blast
  then show ?thesis
  proof cases
    case 1
    from grid_combs_crossnet [OF 1] show ?thesis by (elim exE conjE) (rule exI)
  next
    case 2
    from grid_combs_memnet [OF 2] show ?thesis by (elim exE conjE) (rule exI)
  next
    case 3
    from grid_combs_transformer [OF 3] show ?thesis by (elim exE conjE) (rule exI)
  qed
qed

lemma grid_combs_unsupported: "\<not> supported m \<Longrightarrow> grid_combs m = Inl NotImplementedError"
  by (simp add: supported_def grid_combs_def)


lemma get_param_grid_unsupported:
  "\<not> supported m \<Longrightarrow> get_param_grid m = Inl NotImplementedError"
  by (simp add: get_param_grid_def grid_combs_unsupported)

lemma grid_size_crossnet:
  assumes "m \<in> set crossnet_names"
  shows "\<exists>g. get_param_grid m = Inr g \<and> length g = 41472"
proof -
  from grid_combs_crossnet [OF assms] obtain pc where pc: "grid_combs m = Inr pc"
    and l: "map (length \<circ> snd) pc = [3, 2, 1, 2, 2, 4, 4, 1, 1, 4, 1, 3, 3, 3]"
    by (elim exE conjE)
  have "length (ParameterGrid pc) = 41472"
    unfolding length_ParameterGrid l by simp
  with pc show ?thesis by (simp add: get_param_grid_def)
qed

lemma grid_size_memnet:
  assumes "m \<in> set memnet_names"
  shows "\<exists>g. get_param_grid m = Inr g \<and> length g = 18432"
proof -
  from grid_combs_memnet [OF assms] obtain pc where pc: "grid_combs m = Inr pc"
    and l: "map (length \<circ> snd) pc = [3, 2, 1, 2, 2, 4, 4, 1, 1, 4, 1, 3, 4]"
    by (elim exE conjE)
  have "length (ParameterGrid pc) = 18432"
    unfolding length_ParameterGrid l by simp
  with pc show ?thesis by (simp add: get_param_grid_def)
qed

lemma grid_size_transformer:
  assumes "m \<in> set transformer_names"
  shows "\<exists>g. get_param_grid m = Inr g \<and> length g = 36864"
proof -
  from grid_combs_transformer [OF assms] obtain pc where pc: "grid_combs m = Inr pc"
    and l: "map (length \<circ> snd) pc = [3, 2, 1, 2, 2, 4, 4, 1, 1, 4, 1, 2, 3, 4]"
    by (elim exE conjE)
  have "length (ParameterGrid pc) = 36864"
    unfolding length_ParameterGrid l by simp
  with pc show ?thesis by (simp add: get_param_grid_def)
qed

text \<open>
  C3.  For every supported model name the grid generator returns a list whose length is
  the product of the lengths of the candidate lists of the dict built for that name (the
  generic lists and the lists of the family).  The three products are 41472 (CrossNet),
  18432 (MemNet) and 36864 (Transformer), see above.
\<close>

theorem grid_size:
  "supported m \<Longrightarrow>
     \<exists>pc g. grid_combs m = Inr pc \<and> get_param_grid m = Inr g
       \<and> length g = prod_list (map (length \<circ> snd) pc)"
  using grid_combs_supported [of m]
  by (auto simp: get_param_grid_def length_ParameterGrid)


theorem grid_size_witness:
  "supported ''cn'' \<and>
     (\<exists>pc g. grid_combs ''cn'' = Inr pc \<and> get_param_grid ''cn'' = Inr g
       \<and> length g = prod_list (map (length \<circ> snd) pc))"
  using grid_size [of "''cn''"]
  by (simp add: supported_def crossnet_names_def)

subsection \<open>Ranges of the random sampler\<close>


lemma choice_mem: "xs \<noteq> [] \<Longrightarrow> fst (choice xs r) \<in> set xs"
  by (simp add: choice_def)

lemma choice_pair: "fst (choice [a, b] r) \<in> {a, b}"
  using choice_mem [of "[a, b]" r] by simp

lemma randint_range:
  "low < high \<Longrightarrow> low \<le> fst (randint low high r) \<and> fst (randint low high r) < high"
proof -
  assume lh: "low < high"
  then have "r 0 mod nat (high - low) < nat (high - low)" by simp
  then have "int (r 0 mod nat (high - low)) < int (nat (high - low))"
    by (simp only: of_nat_less_iff)
  with lh have "int (r 0 mod nat (high - low)) < high - low" by simp
  then show ?thesis by (simp add: randint_def)
qed

lemma uniform_range:
  assumes "low < high"
  shows "low \<le> fst (uniform low high r) \<and> fst (uniform low high r) < high"
proof -
  define u where "u = real (r 0 mod 2 ^ 53) / 2 ^ 53"
  have "r 0 mod 2 ^ 53 < (2 ^ 53 :: nat)" by simp
  then have "real (r 0 mod 2 ^ 53) < 2 ^ 53"
    by (metis of_nat_less_iff of_nat_numeral of_nat_power)
  then have u: "0 \<le> u" "u < 1" by (simp_all add: u_def)
  have eq: "fst (uniform low high r) = low + (high - low) * u"
    by (simp add: uniform_def u_def)
  from assms u have "0 \<le> (high - low) * u" by simp
  moreover from assms u have "(high - low) * u < (high - low) * 1"
    by (intro mult_strict_left_mono) simp_all
  ultimately show ?thesis unfolding eq by simp
qed

lemma pow2_batch: "5 \<le> b \<Longrightarrow> b < 9 \<Longrightarrow> (2::int) ^ nat b \<in> {32, 64, 128, 256}"
proof -
  assume "5 \<le> b" "b < 9"
  then have "b = 5 \<or> b = 6 \<or> b = 7 \<or> b = 8" by arith
  then show ?thesis by auto
qed

lemma pow2_head: "1 \<le> a \<Longrightarrow> a < 4 \<Longrightarrow> (2::int) ^ nat a \<in> {2, 4, 8}"
proof -
  assume "1 \<le> a" "a < 4"
  then have "a = 1 \<or> a = 2 \<or> a = 3" by arith
  then show ?thesis by auto
qed

lemma hundreds: "1 \<le> a \<Longrightarrow> a < 6 \<Longrightarrow> 100 * a \<in> {100, 200, 300, 400, 500 :: int}"
proof -
  assume "1 \<le> a" "a < 6"
  then have "a = 1 \<or> a = 2 \<or> a = 3 \<or> a = 4 \<or> a = 5" by arith
  then show ?thesis by auto
qed

lemma layers: "1 \<le> a \<Longrightarrow> a < 5 \<Longrightarrow> a \<in> {1, 2, 3, 4 :: int}"
  by auto

lemma lr_range:
  assumes "- 5 \<le> e" "e < - 1"
  shows "1 / 100000 \<le> (10::real) powr e \<and> 10 powr e \<le> 1 / 10"
proof -
  have "(10::real) powr (- 5) \<le> 10 powr e" using assms by (intro powr_mono) simp_all
  moreover have "(10::real) powr e \<le> 10 powr (- 1)" using assms by (intro powr_mono) simp_all
  moreover have "(10::real) powr (- 5) = 1 / 100000" by (simp add: powr_minus_divide)
  moreover have "(10::real) powr (- 1) = 1 / 10" by (simp add: powr_minus_divide)
  ultimately show ?thesis by simp
qed


lemma declared_consts:
  "declared_range ''max_vocabsize'' (PInt 10000)"
  "declared_range ''max_tgtlen'' (PInt 1)"
  "declared_range ''validation_split'' (PFloat (1 / 5))"
  "declared_range ''epochs'' (PInt 200)"
  "declared_range ''patience'' (PInt 30)"
  "declared_range ''num_reason'' (PInt 1)"
  "declared_range ''target'' (PInt 1)"
  "declared_range ''parallel'' (PInt 1)"
  by (simp_all add: declared_range_def)

lemma declared_choices:
  "declared_range ''max_seqlen'' (fst (choice [PInt 20, PInt 40] r))"
  "declared_range ''profile'' (fst (choice [PBool False, PBool True] r))"
  "declared_range ''prf_cat'' (fst (choice [PBool False, PBool True] r))"
  "declared_range ''max_prflen'' (fst (choice [PInt 20, PInt 40] r))"
  "declared_range ''weight_tying'' (fst (choice [PBool False, PBool True] r))"
  using choice_pair [of "PInt 20" "PInt 40" r] choice_pair [of "PBool False" "PBool True" r]
  by (simp_all add: declared_range_def)

lemma declared_dropout:
  "declared_range ''dropout'' (PFloat (fst (uniform (1 / 10) (1 / 2) r)))"
  using uniform_range [of "1 / 10" "1 / 2" r] by (simp add: declared_range_def)

lemma declared_lr: "declared_range ''lr'' (PFloat (10 powr fst (uniform (- 5) (- 1) r)))"
  using lr_range [of "fst (uniform (- 5) (- 1) r)"] uniform_range [of "- 5" "- 1" r]
  by (simp add: declared_range_def)

lemma declared_batch_size:
  "declared_range ''batch_size'' (PInt (2 ^ nat (fst (randint 5 9 r))))"
  using pow2_batch [of "fst (randint 5 9 r)"] randint_range [of 5 9 r]
  by (simp add: declared_range_def)

lemma declared_hundreds:
  "declared_range ''dim_lstm'' (PInt (100 * fst (randint 1 6 r)))"
  "declared_range ''dim_dense'' (PInt (100 * fst (randint 1 6 r)))"
  using hundreds [of "fst (randint 1 6 r)"] randint_range [of 1 6 r]
  by (simp_all add: declared_range_def)

lemma declared_num_layers: "declared_range ''num_layers'' (PInt (fst (randint 1 5 r)))"
  using layers [of "fst (randint 1 5 r)"] randint_range [of 1 5 r]
  by (simp add: declared_range_def)

lemma declared_num_head: "declared_range ''num_head'' (PInt (2 ^ nat (fst (randint 1 4 r))))"
  using pow2_head [of "fst (randint 1 4 r)"] randint_range [of 1 4 r]
  by (simp add: declared_range_def)

lemmas declared_draws = declared_consts declared_choices declared_dropout declared_lr
  declared_batch_size declared_hundreds declared_num_layers declared_num_head


lemma randsample_crossnet:
  "m \<in> set crossnet_names \<Longrightarrow>
     \<exists>ps r'. randsample_params m r = (Inr ps, r')
       \<and> list_all (\<lambda>(k, v). declared_range k v) ps
       \<and> keys ps = [''max_vocabsize'', ''max_seqlen'', ''max_tgtlen'', ''profile'',
            ''prf_cat'', ''max_prflen'', ''dropout'', ''lr'', ''validation_split'',
            ''epochs'', ''batch_size'', ''patience'', ''dim_lstm'', ''num_reason'',
            ''dim_dense'']"
  by (auto simp add: randsample_params_def split_def Let_def keys_def declared_draws
        crossnet_names_def)


lemma randsample_memnet:
  "m \<in> set memnet_names \<Longrightarrow>
     \<exists>ps r'. randsample_params m r = (Inr ps, r')
       \<and> list_all (\<lambda>(k, v). declared_range k v) ps
       \<and> keys ps = [''max_vocabsize'', ''max_seqlen'', ''max_tgtlen'', ''profile'',
            ''prf_cat'', ''max_prflen'', ''dropout'', ''lr'', ''validation_split'',
            ''epochs'', ''batch_size'', ''patience'', ''dim_lstm'', ''num_layers'',
            ''weight_tying'']"
  by (auto simp add: randsample_params_def split_def Let_def keys_def declared_draws
        crossnet_names_def memnet_names_def)


lemma randsample_transformer:
  "m \<in> set transformer_names \<Longrightarrow>
     \<exists>ps r'. randsample_params m r = (Inr ps, r')
       \<and> list_all (\<lambda>(k, v). declared_range k v) ps
       \<and> keys ps = [''max_vocabsize'', ''max_seqlen'', ''max_tgtlen'', ''profile'',
            ''prf_cat'', ''max_prflen'', ''dropout'', ''lr'', ''validation_split'',
            ''epochs'', ''batch_size'', ''patience'', ''target'', ''parallel'',
            ''num_head'', ''num_layers'']"
  by (auto simp add: randsample_params_def split_def Let_def keys_def declared_draws
        crossnet_names_def memnet_names_def transformer_names_def)


text \<open>
  C9.  For every supported model name and every state of the random generator, the
  sampler returns a ParameterSet, and every value in it lies in the range or choice set
  declared for its name.
\<close>

theorem sampler_in_range:
  assumes "supported m"
  shows "\<exists>ps r'. randsample_params m r = (Inr ps, r')
           \<and> list_all (\<lambda>(k, v). declared_range k v) ps"
proof -
  consider "m \<in> set crossnet_names" | "m \<in> set memnet_names" | "m \<in> set transformer_names"
    using assms unfolding supported_def by blast
  then show ?thesis
  proof cases
    case 1
    from randsample_crossnet [OF 1, of r] show ?thesis by (elim exE conjE) (intro exI conjI)
  next
    case 2
    from randsample_memnet [OF 2, of r] show ?thesis by (elim exE conjE) (intro exI conjI)
  next
    case 3
    from randsample_transformer [OF 3, of r] show ?thesis by (elim exE conjE) (intro exI conjI)
  qed
qed

theorem sampler_in_range_witness:
  "supported ''tf'' \<and>
     (\<exists>ps r'. randsample_params ''tf'' (\<lambda>i. 3 * i + 1) = (Inr ps, r')
        \<and> list_all (\<lambda>(k, v). declared_range k v) ps)"
  using sampler_in_range [of "''tf''" "\<lambda>i. 3 * i + 1"]
  by (simp add: supported_def transformer_names_def)

subsection \<open>Unsupported model names\<close>

lemma randsample_unsupported:
  "\<not> supported m \<Longrightarrow> fst (randsample_params m r) = Inl NotImplementedError"
  by (simp add: supported_def randsample_params_def split_def Let_def)

lemma sample_n_unsupported:
  "\<not> supported m \<Longrightarrow> sample_n m n r = (Inr g, r') \<Longrightarrow> g = []"
  using randsample_unsupported [of m r]
  by (cases n) (auto split: prod.splits sum.splits)

lemma init_unsupported:
  assumes "\<not> supported m"
  shows "isl (fst (init m wv rd rp c p lf w))"
  using assms get_param_grid_unsupported [OF assms] sample_n_unsupported [OF assms]
  by (auto simp: init_def Let_def split: option.splits prod.splits sum.splits list.splits)

text \<open>
  C6.  For a model name outside the three families, the grid generator and the random
  sampler both raise \<open>NotImplementedError\<close>, and the construction of the controller
  fails whatever its other arguments are, so no sweep can start.
\<close>

theorem unsupported_model_raises:
  "\<not> supported m \<Longrightarrow>
     get_param_grid m = Inl NotImplementedError
     \<and> fst (randsample_params m r) = Inl NotImplementedError
     \<and> isl (fst (init m wv rd rp c p lf w))"
  by (simp add: get_param_grid_unsupported randsample_unsupported init_unsupported)

theorem unsupported_model_raises_witness:
  "\<not> supported ''lstm''
   \<and> get_param_grid ''lstm'' = Inl NotImplementedError
   \<and> fst (randsample_params ''lstm'' (\<lambda>i. i)) = Inl NotImplementedError
   \<and> isl (fst (init ''lstm'' None (Some 3) 3 3 ''.'' None
        (\<lparr>rng = \<lambda>i. i, today = ''04Nov2026'', writable = \<lambda>f. True, opened = [],
          csv = [], csv_closed = False, calls = []\<rparr> :: unit world)))"
  using unsupported_model_raises [of "''lstm''" "\<lambda>i. i" None "Some 3" 3 3 "''.''" None
      "\<lparr>rng = \<lambda>i. i, today = ''04Nov2026'', writable = \<lambda>f. True, opened = [],
          csv = [], csv_closed = False, calls = []\<rparr> :: unit world"]
  by (simp add: supported_def crossnet_names_def memnet_names_def transformer_names_def)

subsection \<open>The legacy model choice\<close>

text \<open>
  C10.  Constructing the controller with the model name \<open>svm\<close> raises \<open>ValueError\<close> and
  leaves the world as it was: no file has been opened and no random draw has been made.
\<close>

theorem svm_rejected:
  "init ''svm'' wv rd rp c p lf w = (Inl ValueError, w)"
  by (simp add: init_def)



section \<open>Dictionaries and column names\<close>

lemma keys_dict_set: "set (keys (dict_set k v d)) = insert k (set (keys d))"
  by (induction d) (auto simp: keys_def)

lemma keys_dict_update: "set (keys (dict_update d e)) = set (keys d) \<union> set (keys e)"
proof (induction e arbitrary: d)
  case Nil
  then show ?case by (simp add: keys_def)
next
  case (Cons p e)
  have "set (keys (dict_update d (p # e))) = set (keys (dict_set (fst p) (snd p) d)) \<union> set (keys e)"
    using Cons.IH by simp
  also have "\<dots> = insert (fst p) (set (keys d)) \<union> set (keys e)"
    by (simp only: keys_dict_set)
  also have "\<dots> = set (keys d) \<union> set (keys (p # e))"
    by (simp add: keys_def)
  finally show ?case .
qed

lemma map_of_dict_set: "map_of (dict_set k v d) = (map_of d)(k \<mapsto> v)"
  by (induction d) (auto simp: fun_upd_twist)

lemma map_of_dict_update_other:
  "k \<notin> set (keys e) \<Longrightarrow> map_of (dict_update d e) k = map_of d k"
  by (induction e arbitrary: d) (auto simp: keys_def map_of_dict_set)

lemma dict_get_absent: "k \<notin> set (keys d) \<Longrightarrow> dict_get d k dflt = dflt"
  by (simp add: dict_get_def keys_def map_of_eq_None_iff [THEN iffD2])

lemma dict_get_dict_set: "dict_get (dict_set k v d) k dflt = v"
  by (simp add: dict_get_def map_of_dict_set)

lemma keys_dict_pop: "set (keys (snd (dict_pop k dflt d))) = set (keys d) - {k}"
  by (auto simp: dict_pop_def keys_def)

lemma length_dict_to_list: "length (dict_to_list names row) = length names"
  by (simp add: dict_to_list_def)

lemma dict_to_list_absent:
  "i < length names \<Longrightarrow> names ! i \<notin> set (keys row) \<Longrightarrow> dict_to_list names row ! i = PStr []"
  by (simp add: dict_to_list_def dict_get_absent)

declare str_nat.simps [simp del]

lemma str_nat_not_Nil: "str_nat n \<noteq> []"
  by (subst str_nat.simps) simp

lemma digit_char_inj: "a < 10 \<Longrightarrow> b < 10 \<Longrightarrow> digit_char a = digit_char b \<Longrightarrow> a = b"
proof -
  assume "a < 10" "b < 10" and eq: "digit_char a = digit_char b"
  then have a: "a \<in> {0, 1, 2, 3, 4, 5, 6, 7, 8, 9}" and b: "b \<in> {0, 1, 2, 3, 4, 5, 6, 7, 8, 9}"
    by auto
  from a b eq show ?thesis
    by (auto simp: digit_char_def numeral_2_eq_2 numeral_3_eq_3 eval_nat_numeral)
qed

lemma digit_char_digit: "d < 10 \<Longrightarrow> digit_char d \<in> set ''0123456789''"
  unfolding digit_char_def by (rule nth_mem) simp

lemma str_nat_digits: "set (str_nat n) \<subseteq> set ''0123456789''"
proof (induction n rule: str_nat.induct)
  case (1 n)
  show ?case
  proof (cases "n < 10")
    case True
    then show ?thesis using digit_char_digit [of n] by (subst str_nat.simps) simp
  next
    case False
    have "n mod 10 < 10" by simp
    from digit_char_digit [OF this] 1 [OF False] False show ?thesis
      by (subst str_nat.simps) simp
  qed
qed

lemma str_nat_inj: "str_nat a = str_nat b \<Longrightarrow> a = b"
proof (induction a arbitrary: b rule: str_nat.induct)
  case (1 n)
  show ?case
  proof (cases "n < 10")
    case n: True
    show ?thesis
    proof (cases "b < 10")
      case True
      with n 1(2) show ?thesis
        by (simp add: str_nat.simps [of n] str_nat.simps [of b] digit_char_inj)
    next
      case False
      with n 1(2) str_nat_not_Nil [of "b div 10"] show ?thesis
        by (simp add: str_nat.simps [of n] str_nat.simps [of b])
    qed
  next
    case n: False
    show ?thesis
    proof (cases "b < 10")
      case True
      with n 1(2) str_nat_not_Nil [of "n div 10"] show ?thesis
        by (simp add: str_nat.simps [of n] str_nat.simps [of b])
    next
      case False
      with n 1(2) have eq: "str_nat (n div 10) = str_nat (b div 10)"
        and d: "digit_char (n mod 10) = digit_char (b mod 10)"
        by (simp_all add: str_nat.simps [of n] str_nat.simps [of b])
      from 1(1) [OF n eq] have "n div 10 = b div 10" .
      moreover from d have "n mod 10 = b mod 10" by (intro digit_char_inj) simp_all
      ultimately show ?thesis by (metis div_mult_mod_eq)
    qed
  qed
qed

lemma fmacro_key_inj: "fmacro_key i = fmacro_key j \<Longrightarrow> i = j"
  using str_nat_inj [of "i + 1" "j + 1"] by (simp add: fmacro_key_def)

lemma fmacro_key_prefix: "take 7 (fmacro_key i) = ''fmacro_''"
  by (simp add: fmacro_key_def)

lemma fmacro_key_not_stat: "fmacro_key i \<noteq> ''fmacro_avg''" "fmacro_key i \<noteq> ''fmacro_std''"
proof -
  have "CHR ''a'' \<notin> set (str_nat (i + 1))" "CHR ''s'' \<notin> set (str_nat (i + 1))"
    using str_nat_digits [of "i + 1"] by auto
  then show "fmacro_key i \<noteq> ''fmacro_avg''" "fmacro_key i \<noteq> ''fmacro_std''"
    by (auto simp: fmacro_key_def)
qed

lemma fmacro_key_not_profile: "fmacro_key i \<noteq> ''profile''"
  by (simp add: fmacro_key_def)

lemma fmacro_key_examples:
  "fmacro_key 0 = ''fmacro_1''" "fmacro_key 1 = ''fmacro_2''" "fmacro_key 2 = ''fmacro_3''"
  "fmacro_key 9 = ''fmacro_10''"
  by (simp_all add: fmacro_key_def str_nat.simps digit_char_def)

lemma keys_fmacro_items:
  "keys (map (\<lambda>(i, v). (fmacro_key i, PFloat v)) (enumerate 0 fl)) = map fmacro_key [0..<length fl]"
proof -
  have "keys (map (\<lambda>(i, v). (fmacro_key i, PFloat v)) (enumerate 0 fl))
        = map (fmacro_key \<circ> fst) (enumerate 0 fl)"
    by (simp add: keys_def split_def comp_def)
  also have "\<dots> = map fmacro_key [0..<length fl]"
    by (simp only: map_map [symmetric] map_fst_enumerate add_0)
  finally show ?thesis .
qed

lemma keys_result_row:
  "set (keys (result_row ext params fl))
   = fmacro_key ` {0..<length fl} \<union> {''fmacro_avg'', ''fmacro_std''} \<union> set (keys params)"
  unfolding result_row_def Let_def keys_dict_update keys_fmacro_items
  by (auto simp: keys_def)


section \<open>Keys of the generated parameter spaces\<close>

lemma ParameterGrid_keys:
  assumes "p \<in> set (ParameterGrid pc)"
  shows "keys p = map fst (sort_key fst pc)"
proof -
  from assms obtain xs where xs: "xs \<in> set (product_lists (map snd (sort_key fst pc)))"
    and p: "p = zip (map fst (sort_key fst pc)) xs"
    by (auto simp: ParameterGrid_def Let_def)
  from xs have "length xs = length (map snd (sort_key fst pc))"
    by (rule in_set_product_lists_length)
  then have "length (map fst (sort_key fst pc)) = length xs" by simp
  then show ?thesis unfolding p keys_def by (rule map_fst_zip)
qed

lemma ParameterGrid_key_set:
  "p \<in> set (ParameterGrid pc) \<Longrightarrow> set (keys p) = set (keys pc)"
  by (simp add: ParameterGrid_keys) (simp add: keys_def)

lemma param_keys_okI:
  assumes "\<And>p. p \<in> set g \<Longrightarrow> set (keys p) = set L"
    and "''profile'' \<in> set L" and "\<forall>k \<in> set L. take 7 k \<noteq> ''fmacro_''"
  shows "param_keys_ok g"
  using assms unfolding param_keys_ok_def by simp

lemma grid_keys_ok:
  assumes "get_param_grid m = Inr g"
  shows "param_keys_ok g"
proof -
  have sup: "supported m"
    using assms get_param_grid_unsupported [of m] by auto
  then consider "m \<in> set crossnet_names" | "m \<in> set memnet_names" | "m \<in> set transformer_names"
    unfolding supported_def by blast
  then show ?thesis
  proof cases
    case 1
    from grid_combs_crossnet [OF 1] obtain pc where pc: "grid_combs m = Inr pc"
      and k: "keys pc = [''max_vocabsize'', ''max_seqlen'', ''max_tgtlen'', ''profile'',
             ''max_prflen'', ''dropout'', ''lr'', ''validation_split'', ''epochs'',
             ''batch_size'', ''patience'', ''dim_lstm'', ''num_reason'', ''dim_dense'']"
      by (elim exE conjE)
    from pc assms have g: "g = ParameterGrid pc" by (simp add: get_param_grid_def)
    show ?thesis
      by (rule param_keys_okI [OF ParameterGrid_key_set [of _ pc, unfolded k]])
        (simp_all add: g)
  next
    case 2
    from grid_combs_memnet [OF 2] obtain pc where pc: "grid_combs m = Inr pc"
      and k: "keys pc = [''max_vocabsize'', ''max_seqlen'', ''max_tgtlen'', ''profile'',
             ''max_prflen'', ''dropout'', ''lr'', ''validation_split'', ''epochs'',
             ''batch_size'', ''patience'', ''dim_lstm'', ''num_layers'']"
      by (elim exE conjE)
    from pc assms have g: "g = ParameterGrid pc" by (simp add: get_param_grid_def)
    show ?thesis
      by (rule param_keys_okI [OF ParameterGrid_key_set [of _ pc, unfolded k]])
        (simp_all add: g)
  next
    case 3
    from grid_combs_transformer [OF 3] obtain pc where pc: "grid_combs m = Inr pc"
      and k: "keys pc = [''max_vocabsize'', ''max_seqlen'', ''max_tgtlen'', ''profile'',
             ''max_prflen'', ''dropout'', ''lr'', ''validation_split'', ''epochs'',
             ''batch_size'', ''patience'', ''target'', ''num_head'', ''num_layers'']"
      by (elim exE conjE)
    from pc assms have g: "g = ParameterGrid pc" by (simp add: get_param_grid_def)
    show ?thesis
      by (rule param_keys_okI [OF ParameterGrid_key_set [of _ pc, unfolded k]])
        (simp_all add: g)
  qed
qed

lemma sample_n_elements:
  "sample_n m n r = (Inr g, r') \<Longrightarrow> p \<in> set g
     \<Longrightarrow> \<exists>r0 r1. randsample_params m r0 = (Inr p, r1)"
proof (induction n arbitrary: r g)
  case 0
  then show ?case by simp
next
  case (Suc n)
  from Suc.prems(1) obtain q r1 g1 where q: "randsample_params m r = (Inr q, r1)"
    and rest: "sample_n m n r1 = (Inr g1, r')" and g: "g = q # g1"
    by (auto split: prod.splits sum.splits)
  show ?case
  proof (cases "p = q")
    case True
    with q show ?thesis by blast
  next
    case False
    with Suc.prems(2) g have "p \<in> set g1" by simp
    from Suc.IH [OF rest this] show ?thesis .
  qed
qed

lemma sample_n_length: "sample_n m n r = (Inr g, r') \<Longrightarrow> length g = n"
  by (induction n arbitrary: r g) (auto split: prod.splits sum.splits)

lemma sample_keys_ok:
  assumes "sample_n m n r = (Inr g, r')"
  shows "param_keys_ok g"
proof (cases "g = []")
  case True
  then show ?thesis by (simp add: param_keys_ok_def)
next
  case False
  then obtain p0 where "p0 \<in> set g" by (cases g) auto
  from sample_n_elements [OF assms this] have sup: "supported m"
    using randsample_unsupported [of m] by (metis fst_conv sum.distinct(1))
  then consider "m \<in> set crossnet_names" | "m \<in> set memnet_names" | "m \<in> set transformer_names"
    unfolding supported_def by blast
  then show ?thesis
  proof cases
    case 1
    have "set (keys p) = set [''max_vocabsize'', ''max_seqlen'', ''max_tgtlen'', ''profile'',
            ''prf_cat'', ''max_prflen'', ''dropout'', ''lr'', ''validation_split'',
            ''epochs'', ''batch_size'', ''patience'', ''dim_lstm'', ''num_reason'',
            ''dim_dense'']" if "p \<in> set g" for p
    proof -
      from sample_n_elements [OF assms that] obtain r0 r1
        where "randsample_params m r0 = (Inr p, r1)" by blast
      with randsample_crossnet [OF 1, of r0] show ?thesis by auto
    qed
    then show ?thesis by (rule param_keys_okI) simp_all
  next
    case 2
    have "set (keys p) = set [''max_vocabsize'', ''max_seqlen'', ''max_tgtlen'', ''profile'',
            ''prf_cat'', ''max_prflen'', ''dropout'', ''lr'', ''validation_split'',
            ''epochs'', ''batch_size'', ''patience'', ''dim_lstm'', ''num_layers'',
            ''weight_tying'']" if "p \<in> set g" for p
    proof -
      from sample_n_elements [OF assms that] obtain r0 r1
        where "randsample_params m r0 = (Inr p, r1)" by blast
      with randsample_memnet [OF 2, of r0] show ?thesis by auto
    qed
    then show ?thesis by (rule param_keys_okI) simp_all
  next
    case 3
    have "set (keys p) = set [''max_vocabsize'', ''max_seqlen'', ''max_tgtlen'', ''profile'',
            ''prf_cat'', ''max_prflen'', ''dropout'', ''lr'', ''validation_split'',
            ''epochs'', ''batch_size'', ''patience'', ''target'', ''parallel'',
            ''num_head'', ''num_layers'']" if "p \<in> set g" for p
    proof -
      from sample_n_elements [OF assms that] obtain r0 r1
        where "randsample_params m r0 = (Inr p, r1)" by blast
      with randsample_transformer [OF 3, of r0] show ?thesis by auto
    qed
    then show ?thesis by (rule param_keys_okI) simp_all
  qed
qed


section \<open>Construction\<close>

lemma init_Inr_source:
  assumes "init m wv rd rp c p lf w = (Inr gs, w1)"
  shows "get_param_grid m = Inr (param_grid gs)
         \<or> (\<exists>n. sample_n m n (rng w) = (Inr (param_grid gs), rng w1))"
proof (cases rd)
  case None
  with assms have "get_param_grid m = Inr (param_grid gs)"
    by (auto simp: init_def Let_def split: if_splits prod.splits sum.splits list.splits)
  then show ?thesis ..
next
  case (Some n)
  show ?thesis
  proof (cases "n = 0")
    case True
    with Some assms have "get_param_grid m = Inr (param_grid gs)"
      by (auto simp: init_def Let_def split: if_splits prod.splits sum.splits list.splits)
    then show ?thesis ..
  next
    case False
    with Some assms have "sample_n m (nat n) (rng w) = (Inr (param_grid gs), rng w1)"
      by (auto simp: init_def Let_def split: if_splits prod.splits sum.splits list.splits)
    then show ?thesis by blast
  qed
qed

lemma init_Inr_fields:
  assumes "init m wv rd rp c p lf w = (Inr gs, w1)"
  shows "param_grid gs \<noteq> []
    \<and> fieldnames gs = keys (hd (param_grid gs)) @ map fmacro_key [0..<nat rp]
        @ [''fmacro_avg'', ''fmacro_std'']
    \<and> repeat gs = rp \<and> model gs = m \<and> cv gs = c \<and> path gs = p
    \<and> csv w1 = [map PStr (fieldnames gs)] \<and> \<not> csv_closed w1 \<and> calls w1 = calls w"
  using assms
  by (cases rd)
    (auto simp: init_def Let_def split: if_splits prod.splits sum.splits list.splits)

lemma init_Inr_keys:
  assumes "init m wv rd rp c p lf w = (Inr gs, w1)"
  shows "param_keys_ok (param_grid gs)"
  using init_Inr_source [OF assms] grid_keys_ok sample_keys_ok by blast


section \<open>Writing rows\<close>

lemma writerow_cases:
  assumes "writerow names row w = (res, w1)"
  obtains (raise) "res = Inl ValueError" "w1 = w"
      "(\<exists>k \<in> set (keys row). k \<notin> set names) \<or> csv_closed w"
    | (written) "res = Inr ()" "w1 = w\<lparr>csv := csv w @ [dict_to_list names row]\<rparr>"
      "set (keys row) \<subseteq> set names" "\<not> csv_closed w"
  using assms unfolding writerow_def by (auto split: if_splits)

lemma writerow_ok:
  "set (keys row) \<subseteq> set names \<Longrightarrow> \<not> csv_closed w
     \<Longrightarrow> writerow names row w = (Inr (), w\<lparr>csv := csv w @ [dict_to_list names row]\<rparr>)"
  unfolding writerow_def by auto

lemma writerow_raise:
  "k \<in> set (keys row) \<Longrightarrow> k \<notin> set names \<Longrightarrow> writerow names row w = (Inl ValueError, w)"
  unfolding writerow_def by auto

section \<open>Reading the log\<close>

lemma trace_ok_Nil [simp]: "trace_ok ext n outcome []"
  by (simp add: trace_ok_def)

lemma trace_ok_single:
  "trace_ok ext n outcome [c] \<longleftrightarrow> (\<forall>e. raised ext n c = Some e \<longrightarrow> outcome = Some e)"
  by (simp add: trace_ok_def)

lemma trace_ok_None_any: "trace_ok ext n None cs \<Longrightarrow> trace_ok ext n outcome cs"
  by (simp add: trace_ok_def)

lemma trace_ok_append:
  assumes "trace_ok ext n None cs1" and "trace_ok ext (n + length cs1) outcome cs2"
  shows "trace_ok ext n outcome (cs1 @ cs2)"
  unfolding trace_ok_def
proof (intro allI impI)
  fix i e
  assume i: "i < length (cs1 @ cs2)" and r: "raised ext (n + i) ((cs1 @ cs2) ! i) = Some e"
  show "outcome = Some e \<and> Suc i = length (cs1 @ cs2)"
  proof (cases "i < length cs1")
    case True
    with r have "raised ext (n + i) (cs1 ! i) = Some e" by (simp add: nth_append)
    with assms(1) True show ?thesis by (simp add: trace_ok_def)
  next
    case False
    define j where "j = i - length cs1"
    from False i have j: "j < length cs2" and ij: "i = length cs1 + j"
      by (simp_all add: j_def)
    from r have "raised ext (n + length cs1 + j) (cs2 ! j) = Some e"
      by (simp add: ij nth_append add.assoc)
    with assms(2) j have "outcome = Some e \<and> Suc j = length cs2"
      by (simp add: trace_ok_def)
    then show ?thesis by (simp add: ij)
  qed
qed

lemma err_of_simps [simp]: "err_of (Inl e) = Some e" "err_of (Inr x) = None"
  by (simp_all add: err_of_def)

section \<open>The external calls\<close>

lemma call_load_data_eq:
  "call_load_data ext fp b w = (load_data ext fp b, w\<lparr>calls := calls w @ [LoadData fp b]\<rparr>)"
  by (simp add: call_load_data_def)

lemma raised_LoadData: "raised ext n (LoadData fp b) = err_of (load_data ext fp b)"
  by (simp add: err_of_def split: sum.splits)

text \<open>The call that one repetition of \<open>fixed\<close> logs for a popped ParameterSet.\<close>

lemma call_run_fixed_fast_eq:
  "call_run_fixed_fast ext gs plain prof profile params w =
     (run_fixed_fast ext (length (calls w)) (model gs)
        (fst (if truthy profile then prof else plain))
        (snd (if truthy profile then prof else plain)) (wvfp gs) profile params,
      w\<lparr>calls := calls w @
        [RunFixedFast (model gs) (fst (if truthy profile then prof else plain))
           (snd (if truthy profile then prof else plain)) (wvfp gs) profile params]\<rparr>)"
  by (simp add: call_run_fixed_fast_def split_def)

lemma repeat_runs_log:
  assumes "repeat_runs ext gs plain prof profile params n w = (res, w1)"
  defines "C \<equiv> RunFixedFast (model gs) (fst (if truthy profile then prof else plain))
           (snd (if truthy profile then prof else plain)) (wvfp gs) profile params"
  shows "\<exists>k \<le> n. w1 = w\<lparr>calls := calls w @ replicate k C\<rparr>
          \<and> trace_ok ext (length (calls w)) (err_of res) (replicate k C)
          \<and> (\<forall>fl. res = Inr fl \<longrightarrow> k = n \<and> length fl = n)"
  using assms(1)
proof (induction n arbitrary: w res w1)
  case 0
  then have "w1 = w\<lparr>calls := calls w @ replicate 0 C\<rparr>" "res = Inr []" by simp_all
  then show ?case by (intro exI [of _ 0]) simp
next
  case (Suc n)
  define r0 where "r0 = run_fixed_fast ext (length (calls w)) (model gs)
        (fst (if truthy profile then prof else plain))
        (snd (if truthy profile then prof else plain)) (wvfp gs) profile params"
  define w0 where "w0 = w\<lparr>calls := calls w @ [C]\<rparr>"
  have call: "call_run_fixed_fast ext gs plain prof profile params w = (r0, w0)"
    by (simp add: call_run_fixed_fast_eq r0_def w0_def C_def)
  have rz: "raised ext (length (calls w)) C = err_of r0"
    by (simp add: C_def r0_def err_of_def split: sum.splits)
  show ?case
  proof (cases r0)
    case (Inl e)
    with Suc.prems call have res: "res = Inl e" and w1: "w1 = w0" by simp_all
    have "w1 = w\<lparr>calls := calls w @ replicate 1 C\<rparr>"
      and "trace_ok ext (length (calls w)) (err_of res) (replicate 1 C)"
      using rz Inl res w1 by (simp_all add: w0_def trace_ok_single)
    then show ?thesis using res by (intro exI [of _ 1]) simp
  next
    case (Inr x)
    obtain res' w' where rec: "repeat_runs ext gs plain prof profile params n w0 = (res', w')"
      by (cases "repeat_runs ext gs plain prof profile params n w0")
    from Suc.IH [OF rec] obtain k where k: "k \<le> n"
      and w': "w' = w0\<lparr>calls := calls w0 @ replicate k C\<rparr>"
      and tr: "trace_ok ext (length (calls w0)) (err_of res') (replicate k C)"
      and len: "\<forall>fl. res' = Inr fl \<longrightarrow> k = n \<and> length fl = n"
      by blast
    from Suc.prems call Inr rec have res: "err_of res = err_of res'" and w1: "w1 = w'"
      and res_len: "\<forall>fl. res = Inr fl \<longrightarrow> (\<exists>fl'. res' = Inr fl' \<and> fl = x # fl')"
      by (auto split: sum.splits)
    have first: "trace_ok ext (length (calls w)) None [C]"
      using rz Inr by (simp add: trace_ok_single)
    have "trace_ok ext (length (calls w)) (err_of res) ([C] @ replicate k C)"
      using tr by (intro trace_ok_append [OF first]) (simp add: res w0_def)
    moreover have "w1 = w\<lparr>calls := calls w @ replicate (Suc k) C\<rparr>"
      by (simp add: w1 w' w0_def)
    moreover have "\<forall>fl. res = Inr fl \<longrightarrow> Suc k = Suc n \<and> length fl = Suc n"
      using res_len len by auto
    ultimately show ?thesis using k by (intro exI [of _ "Suc k"]) simp
  qed
qed

lemma call_run_xval_eq:
  "call_run_xval ext gs plain prof profile params w =
     (run_xval ext (length (calls w)) (model gs) (if truthy profile then prof else plain)
        (wvfp gs) profile (cv gs) params,
      w\<lparr>calls := calls w @
        [RunXval (model gs) (if truthy profile then prof else plain) (wvfp gs) profile
           (cv gs) params]\<rparr>)"
  by (simp add: call_run_xval_def Let_def)

lemma call_run_xval_log:
  assumes "call_run_xval ext gs plain prof profile params w = (res, w1)"
  defines "C \<equiv> RunXval (model gs) (if truthy profile then prof else plain) (wvfp gs) profile
           (cv gs) params"
  shows "w1 = w\<lparr>calls := calls w @ [C]\<rparr> \<and> trace_ok ext (length (calls w)) (err_of res) [C]"
  using assms(1) unfolding call_run_xval_eq C_def
  by (auto simp: trace_ok_single err_of_def split: sum.splits)


section \<open>Parts of an operation\<close>

lemma logged_refl [simp]: "logged ext P w outcome w"
  unfolding logged_def by (intro exI [of _ "[]"]) simp

lemma logged_trans:
  assumes "logged ext P w None w1" and "logged ext P w1 outcome w2"
  shows "logged ext P w outcome w2"
proof -
  from assms(1) obtain cs1 rows1 where 1: "calls w1 = calls w @ cs1"
    "trace_ok ext (length (calls w)) None cs1" "csv w1 = csv w @ rows1"
    "\<forall>row \<in> set rows1. P row" "csv_closed w1 = csv_closed w"
    unfolding logged_def by blast
  from assms(2) obtain cs2 rows2 where 2: "calls w2 = calls w1 @ cs2"
    "trace_ok ext (length (calls w1)) outcome cs2" "csv w2 = csv w1 @ rows2"
    "\<forall>row \<in> set rows2. P row" "csv_closed w2 = csv_closed w1"
    unfolding logged_def by blast
  have "trace_ok ext (length (calls w)) outcome (cs1 @ cs2)"
    using 1(2) 2(2) by (intro trace_ok_append) (simp_all add: 1(1))
  moreover have "calls w2 = calls w @ cs1 @ cs2" by (simp add: 1 2)
  moreover have "csv w2 = csv w @ rows1 @ rows2" by (simp add: 1 2)
  moreover have "\<forall>row \<in> set (rows1 @ rows2). P row" using 1(4) 2(4) by auto
  moreover have "csv_closed w2 = csv_closed w" by (simp add: 1 2)
  ultimately show ?thesis unfolding logged_def by blast
qed

lemma logged_calls:
  "trace_ok ext (length (calls w)) outcome cs
     \<Longrightarrow> logged ext P w outcome (w\<lparr>calls := calls w @ cs\<rparr>)"
  unfolding logged_def by (intro exI [of _ cs] exI [of _ "[]"]) simp

lemma logged_row: "P row \<Longrightarrow> logged ext P w outcome (w\<lparr>csv := csv w @ [row]\<rparr>)"
  unfolding logged_def by (intro exI [of _ "[]"] exI [of _ "[row]"]) simp

lemma call_load_data_logged:
  "call_load_data ext fp b w = (res, w1) \<Longrightarrow> logged ext P w (err_of res) w1"
proof -
  assume "call_load_data ext fp b w = (res, w1)"
  then have res: "res = load_data ext fp b"
    and w1: "w1 = w\<lparr>calls := calls w @ [LoadData fp b]\<rparr>"
    by (simp_all add: call_load_data_eq)
  have "trace_ok ext (length (calls w)) (err_of res) [LoadData fp b]"
    by (simp add: trace_ok_single res err_of_def)
  then show ?thesis unfolding w1 by (rule logged_calls)
qed

lemma repeat_runs_logged:
  assumes "repeat_runs ext gs plain prof profile params n w = (res, w1)"
  shows "logged ext P w (err_of res) w1"
proof -
  from repeat_runs_log [OF assms] obtain k C
    where "w1 = w\<lparr>calls := calls w @ replicate k C\<rparr>"
      and "trace_ok ext (length (calls w)) (err_of res) (replicate k C)"
    by blast
  then show ?thesis using logged_calls by blast
qed

lemma call_run_xval_logged:
  assumes "call_run_xval ext gs plain prof profile params w = (res, w1)"
  shows "logged ext P w (err_of res) w1"
  using call_run_xval_log [OF assms] logged_calls by metis

lemma result2csvrow_logged:
  assumes "result2csvrow ext gs params fl w = (res, w1)"
    and "P (dict_to_list (fieldnames gs) (result_row ext params fl))"
  shows "logged ext P w (err_of res) w1"
  using assms(1) unfolding result2csvrow_def
proof (cases rule: writerow_cases)
  case raise
  then show ?thesis by simp
next
  case written
  then show ?thesis using assms(2) by (simp add: logged_row)
qed

section \<open>The loop bodies\<close>

lemma fixed_body_gen:
  "fixed_body ext gs plain prof =
     gen_body ext gs (\<lambda>profile params1.
       repeat_runs ext gs plain prof profile params1 (nat (repeat gs)))"
  by (intro ext) (simp add: fixed_body_def gen_body_def filter_useless_combs_def)

lemma xval_body_gen:
  "xval_body ext gs plain prof = gen_body ext gs (call_run_xval ext gs plain prof)"
  by (intro ext) (simp add: xval_body_def gen_body_def filter_useless_combs_def)

lemma gen_body_logged:
  assumes run: "\<And>profile params w r w1. run profile params w = (r, w1)
                  \<Longrightarrow> logged ext P w (err_of r) w1"
    and P: "\<And>fl. P (dict_to_list (fieldnames gs) (result_row ext (popped p) fl))"
    and body: "gen_body ext gs run p w = (res, w1)"
  shows "logged ext P w (err_of res) w1"
proof -
  define profile where "profile = fst (dict_pop ''profile'' PNone p)"
  obtain r wa where r: "run profile (popped p) w = (r, wa)"
    by (cases "run profile (popped p) w")
  note la = run [OF r]
  show ?thesis
  proof (cases r)
    case (Inl e)
    with body r have "res = Inl e" "w1 = wa"
      by (simp_all add: gen_body_def split_def popped_def profile_def)
    with la Inl show ?thesis by simp
  next
    case (Inr fl)
    obtain r2 wb where r2: "result2csvrow ext gs (popped p) fl wa = (r2, wb)"
      by (cases "result2csvrow ext gs (popped p) fl wa")
    from body r Inr r2 have "err_of res = err_of r2" "w1 = wb"
      by (auto simp: gen_body_def split_def popped_def profile_def split: sum.splits)
    moreover from la Inr have "logged ext P w None wa" by simp
    moreover have "logged ext P wa (err_of r2) wb"
      by (rule result2csvrow_logged [OF r2]) (rule P)
    ultimately show ?thesis using logged_trans by metis
  qed
qed

section \<open>The sweep loop\<close>

lemma for_params_logged:
  assumes body: "\<And>p w res w1. p \<in> set ps \<Longrightarrow> body p w = (res, w1)
                   \<Longrightarrow> logged ext P w (err_of res) w1"
    and loop: "for_params body ps w = (res, w1)"
  shows "logged ext P w (err_of res) w1"
  using assms
proof (induction ps arbitrary: w res w1)
  case Nil
  then show ?case by simp
next
  case (Cons p ps)
  obtain r wa where r: "body p w = (r, wa)" by (cases "body p w")
  have la: "logged ext P w (err_of r) wa" by (rule Cons.prems(1) [OF _ r]) simp
  show ?case
  proof (cases r)
    case (Inl e)
    with Cons.prems(2) r have "res = Inl e" "w1 = wa" by simp_all
    with la Inl show ?thesis by simp
  next
    case (Inr p')
    obtain r2 wb where r2: "for_params body ps wa = (r2, wb)"
      by (cases "for_params body ps wa")
    have lb: "logged ext P wa (err_of r2) wb"
      by (rule Cons.IH [OF _ r2]) (rule Cons.prems(1), simp_all)
    from Cons.prems(2) r Inr r2 have "err_of res = err_of r2" "w1 = wb"
      by (auto split: sum.splits)
    moreover from la Inr have "logged ext P w None wa" by simp
    ultimately show ?thesis using lb logged_trans by metis
  qed
qed


lemma trace_ok_Cons:
  assumes "cs \<noteq> []"
  shows "trace_ok ext n outcome (c # cs) \<longleftrightarrow>
           raised ext n c = None \<and> trace_ok ext (Suc n) outcome cs"
proof
  assume t: "trace_ok ext n outcome (c # cs)"
  have "raised ext n c = None"
  proof (cases "raised ext n c")
    case (Some e)
    with t [unfolded trace_ok_def, rule_format, of 0 e] assms show ?thesis by simp
  qed simp
  moreover have "trace_ok ext (Suc n) outcome cs"
    unfolding trace_ok_def
  proof (intro allI impI)
    fix i e
    assume "i < length cs" "raised ext (Suc n + i) (cs ! i) = Some e"
    with t [unfolded trace_ok_def, rule_format, of "Suc i" e]
    show "outcome = Some e \<and> Suc i = length cs" by simp
  qed
  ultimately show "raised ext n c = None \<and> trace_ok ext (Suc n) outcome cs" ..
next
  assume a: "raised ext n c = None \<and> trace_ok ext (Suc n) outcome cs"
  then have "trace_ok ext n None [c]" by (simp add: trace_ok_single)
  moreover from a have "trace_ok ext (n + length [c]) outcome cs" by simp
  ultimately have "trace_ok ext n outcome ([c] @ cs)" by (rule trace_ok_append)
  then show "trace_ok ext n outcome (c # cs)" by simp
qed

lemmas trace_ok_list = trace_ok_Cons trace_ok_single

lemma fixed_loop_logged:
  assumes P: "\<And>p fl. P (dict_to_list (fieldnames gs) (result_row ext (popped p) fl))"
    and loop: "for_params (fixed_body ext gs plain prof) ps w = (res, w1)"
  shows "logged ext P w (err_of res) w1"
proof (rule for_params_logged [OF _ loop])
  fix p w res w1
  assume "fixed_body ext gs plain prof p w = (res, w1)"
  then show "logged ext P w (err_of res) w1"
    unfolding fixed_body_gen
    by (rule gen_body_logged [rotated 2]) (erule repeat_runs_logged, rule P)
qed

lemma xval_loop_logged:
  assumes P: "\<And>p fl. P (dict_to_list (fieldnames gs) (result_row ext (popped p) fl))"
    and loop: "for_params (xval_body ext gs plain prof) ps w = (res, w1)"
  shows "logged ext P w (err_of res) w1"
proof (rule for_params_logged [OF _ loop])
  fix p w res w1
  assume "xval_body ext gs plain prof p w = (res, w1)"
  then show "logged ext P w (err_of res) w1"
    unfolding xval_body_gen
    by (rule gen_body_logged [rotated 2]) (erule call_run_xval_logged, rule P)
qed

text \<open>The two ways \<open>fixed\<close> can end.\<close>

lemma fixed_cases:
  assumes "fixed ext gs trainfp testfp w = (res, w1)"
  obtains (raise) e where "res = Inl e"
      "\<And>P. (\<And>p fl. P (dict_to_list (fieldnames gs) (result_row ext (popped p) fl)))
          \<Longrightarrow> logged ext P w (Some e) w1"
    | (finished) tr trp te tep w4 grid w5 where
      "load_data ext (path_join (path gs) trainfp) False = Inr tr"
      "load_data ext (path_join (path gs) trainfp) True = Inr trp"
      "load_data ext (path_join (path gs) testfp) False = Inr te"
      "load_data ext (path_join (path gs) testfp) True = Inr tep"
      "w4 = w\<lparr>calls := calls w @
          [LoadData (path_join (path gs) trainfp) False,
           LoadData (path_join (path gs) trainfp) True,
           LoadData (path_join (path gs) testfp) False,
           LoadData (path_join (path gs) testfp) True]\<rparr>"
      "for_params (fixed_body ext gs (tr, te) (trp, tep)) (param_grid gs) w4 = (Inr grid, w5)"
      "res = Inr (gs\<lparr>param_grid := grid\<rparr>)" "w1 = w5\<lparr>csv_closed := True\<rparr>"
proof -
  define f1 where "f1 = path_join (path gs) trainfp"
  define f2 where "f2 = path_join (path gs) testfp"
  note eq = assms [unfolded fixed_def Let_def call_load_data_eq,
      folded f1_def f2_def, simplified]
  have pre: "logged ext P w outcome (w\<lparr>calls := calls w @ cs\<rparr>)"
    if "trace_ok ext (length (calls w)) outcome cs" for P outcome cs
    using that by (rule logged_calls)
  show ?thesis
  proof (cases "load_data ext f1 False")
    case (Inl e)
    with eq have "res = Inl e" "w1 = w\<lparr>calls := calls w @ [LoadData f1 False]\<rparr>"
      by simp_all
    moreover have "logged ext P w (Some e) (w\<lparr>calls := calls w @ [LoadData f1 False]\<rparr>)" for P
      by (rule pre) (simp add: trace_ok_list Inl)
    ultimately show ?thesis using raise by blast
  next
    case a: (Inr tr)
    show ?thesis
    proof (cases "load_data ext f1 True")
      case (Inl e)
      with eq a have "res = Inl e"
        "w1 = w\<lparr>calls := calls w @ [LoadData f1 False, LoadData f1 True]\<rparr>"
        by simp_all
      moreover have "logged ext P w (Some e)
          (w\<lparr>calls := calls w @ [LoadData f1 False, LoadData f1 True]\<rparr>)" for P
        by (rule pre) (simp add: trace_ok_list Inl a)
      ultimately show ?thesis using raise by blast
    next
      case b: (Inr trp)
      show ?thesis
      proof (cases "load_data ext f2 False")
        case (Inl e)
        with eq a b have "res = Inl e"
          "w1 = w\<lparr>calls := calls w @
              [LoadData f1 False, LoadData f1 True, LoadData f2 False]\<rparr>"
          by simp_all
        moreover have "logged ext P w (Some e) (w\<lparr>calls := calls w @
              [LoadData f1 False, LoadData f1 True, LoadData f2 False]\<rparr>)" for P
          by (rule pre) (simp add: trace_ok_list Inl a b)
        ultimately show ?thesis using raise by blast
      next
        case c: (Inr te)
        show ?thesis
        proof (cases "load_data ext f2 True")
          case (Inl e)
          with eq a b c have "res = Inl e"
            "w1 = w\<lparr>calls := calls w @
                [LoadData f1 False, LoadData f1 True, LoadData f2 False,
                 LoadData f2 True]\<rparr>"
            by simp_all
          moreover have "logged ext P w (Some e) (w\<lparr>calls := calls w @
                [LoadData f1 False, LoadData f1 True, LoadData f2 False,
                 LoadData f2 True]\<rparr>)" for P
            by (rule pre) (simp add: trace_ok_list Inl a b c)
          ultimately show ?thesis using raise by blast
        next
          case d: (Inr tep)
          define w4 where "w4 = w\<lparr>calls := calls w @
                [LoadData f1 False, LoadData f1 True, LoadData f2 False,
                 LoadData f2 True]\<rparr>"
          have l4: "logged ext P w None w4" for P
            unfolding w4_def by (rule pre) (simp add: trace_ok_list a b c d)
          obtain r5 w5
            where loop: "for_params (fixed_body ext gs (tr, te) (trp, tep)) (param_grid gs) w4
                    = (r5, w5)"
            by (cases "for_params (fixed_body ext gs (tr, te) (trp, tep)) (param_grid gs) w4")
          show ?thesis
          proof (cases r5)
            case (Inl e)
            with eq a b c d loop have r: "res = Inl e" "w1 = w5"
              by (simp_all add: w4_def)
            have "logged ext P w (Some e) w1"
              if "\<And>p fl. P (dict_to_list (fieldnames gs) (result_row ext (popped p) fl))"
              for P
            proof -
              have "logged ext P w4 (err_of r5) w5"
                by (rule fixed_loop_logged [where P = P, OF _ loop]) (rule that)
              with l4 [of P] have "logged ext P w (err_of r5) w5" by (rule logged_trans)
              with Inl r show ?thesis by simp
            qed
            with r show ?thesis using raise by blast
          next
            case (Inr grid)
            with eq a b c d loop have "res = Inr (gs\<lparr>param_grid := grid\<rparr>)"
              "w1 = w5\<lparr>csv_closed := True\<rparr>"
              by (simp_all add: w4_def)
            with a b c d loop Inr show ?thesis
              using finished [of tr trp te tep w4 grid w5]
              by (simp add: f1_def f2_def w4_def)
          qed
        qed
      qed
    qed
  qed
qed


text \<open>The two ways \<open>xval\<close> can end.\<close>

lemma xval_cases:
  assumes "xval ext gs datafp w = (res, w1)"
  obtains (raise) e where "res = Inl e"
      "\<And>P. (\<And>p fl. P (dict_to_list (fieldnames gs) (result_row ext (popped p) fl)))
          \<Longrightarrow> logged ext P w (Some e) w1"
    | (finished) d dp w2 grid w3 where
      "load_data ext (path_join (path gs) datafp) False = Inr d"
      "load_data ext (path_join (path gs) datafp) True = Inr dp"
      "w2 = w\<lparr>calls := calls w @
          [LoadData (path_join (path gs) datafp) False,
           LoadData (path_join (path gs) datafp) True]\<rparr>"
      "for_params (xval_body ext gs d dp) (param_grid gs) w2 = (Inr grid, w3)"
      "res = Inr (gs\<lparr>param_grid := grid\<rparr>)" "w1 = w3\<lparr>csv_closed := True\<rparr>"
proof -
  define f1 where "f1 = path_join (path gs) datafp"
  note eq = assms [unfolded xval_def Let_def call_load_data_eq, folded f1_def, simplified]
  have pre: "logged ext P w outcome (w\<lparr>calls := calls w @ cs\<rparr>)"
    if "trace_ok ext (length (calls w)) outcome cs" for P outcome cs
    using that by (rule logged_calls)
  show ?thesis
  proof (cases "load_data ext f1 False")
    case (Inl e)
    with eq have "res = Inl e" "w1 = w\<lparr>calls := calls w @ [LoadData f1 False]\<rparr>"
      by simp_all
    moreover have "logged ext P w (Some e) (w\<lparr>calls := calls w @ [LoadData f1 False]\<rparr>)" for P
      by (rule pre) (simp add: trace_ok_list Inl)
    ultimately show ?thesis using raise by blast
  next
    case a: (Inr d)
    show ?thesis
    proof (cases "load_data ext f1 True")
      case (Inl e)
      with eq a have "res = Inl e"
        "w1 = w\<lparr>calls := calls w @ [LoadData f1 False, LoadData f1 True]\<rparr>"
        by simp_all
      moreover have "logged ext P w (Some e)
          (w\<lparr>calls := calls w @ [LoadData f1 False, LoadData f1 True]\<rparr>)" for P
        by (rule pre) (simp add: trace_ok_list Inl a)
      ultimately show ?thesis using raise by blast
    next
      case b: (Inr dp)
      define w2 where "w2 = w\<lparr>calls := calls w @ [LoadData f1 False, LoadData f1 True]\<rparr>"
      have l2: "logged ext P w None w2" for P
        unfolding w2_def by (rule pre) (simp add: trace_ok_list a b)
      obtain r3 w3
        where loop: "for_params (xval_body ext gs d dp) (param_grid gs) w2 = (r3, w3)"
        by (cases "for_params (xval_body ext gs d dp) (param_grid gs) w2")
      show ?thesis
      proof (cases r3)
        case (Inl e)
        with eq a b loop have r: "res = Inl e" "w1 = w3"
          by (simp_all add: w2_def)
        have "logged ext P w (Some e) w1"
          if "\<And>p fl. P (dict_to_list (fieldnames gs) (result_row ext (popped p) fl))"
          for P
        proof -
          have "logged ext P w2 (err_of r3) w3"
            by (rule xval_loop_logged [where P = P, OF _ loop]) (rule that)
          with l2 [of P] have "logged ext P w (err_of r3) w3" by (rule logged_trans)
          with Inl r show ?thesis by simp
        qed
        with r show ?thesis using raise by blast
      next
        case (Inr grid)
        with eq a b loop have "res = Inr (gs\<lparr>param_grid := grid\<rparr>)"
          "w1 = w3\<lparr>csv_closed := True\<rparr>"
          by (simp_all add: w2_def)
        with a b loop Inr show ?thesis
          using finished [of d dp w2 grid w3]
          by (simp add: f1_def w2_def)
      qed
    qed
  qed
qed

section \<open>A sweep that completes\<close>

lemma for_params_Inr:
  assumes body: "\<And>p w p' w1. body p w = (Inr p', w1)
      \<Longrightarrow> p' = f p \<and> calls w1 = calls w @ cl p \<and> csv_closed w1 = csv_closed w
          \<and> (\<exists>row. R p row \<and> csv w1 = csv w @ [row])"
    and loop: "for_params body ps w = (Inr grid, w1)"
  shows "grid = map f ps \<and> calls w1 = calls w @ concat (map cl ps)
         \<and> csv_closed w1 = csv_closed w
         \<and> (\<exists>rows. list_all2 R ps rows \<and> csv w1 = csv w @ rows)"
  using loop
proof (induction ps arbitrary: w grid w1)
  case Nil
  then show ?case by simp
next
  case (Cons p ps)
  from Cons.prems obtain p' wa grid' where b: "body p w = (Inr p', wa)"
    and l: "for_params body ps wa = (Inr grid', w1)" and g: "grid = p' # grid'"
    by (auto split: prod.splits sum.splits)
  from body [OF b] obtain row where p': "p' = f p" and c: "calls wa = calls w @ cl p"
    and cc: "csv_closed wa = csv_closed w" and row: "R p row" "csv wa = csv w @ [row]"
    by blast
  from Cons.IH [OF l] obtain rows where g': "grid' = map f ps"
    and c': "calls w1 = calls wa @ concat (map cl ps)"
    and cc': "csv_closed w1 = csv_closed wa"
    and rows: "list_all2 R ps rows" "csv w1 = csv wa @ rows"
    by blast
  have "list_all2 R (p # ps) (row # rows)" using row rows by simp
  moreover have "csv w1 = csv w @ row # rows" using row rows by simp
  ultimately show ?case using g p' g' c c' cc cc' by auto
qed

lemma for_params_total:
  assumes body: "\<And>p w. p \<in> set ps \<Longrightarrow> I w \<Longrightarrow> \<exists>p' w1. body p w = (Inr p', w1) \<and> I w1"
    and "I w"
  shows "\<exists>grid w1. for_params body ps w = (Inr grid, w1) \<and> I w1"
  using assms
proof (induction ps arbitrary: w)
  case Nil
  then show ?case by simp
next
  case (Cons p ps)
  from Cons.prems(1) [of p w] Cons.prems(2) obtain p' wa
    where b: "body p w = (Inr p', wa)" and i: "I wa" by auto
  from Cons.IH [OF _ i] Cons.prems(1) obtain grid w1
    where "for_params body ps wa = (Inr grid, w1)" "I w1" by auto
  with b show ?case by simp
qed


section \<open>A loop body that completes\<close>

lemma gen_body_Inr:
  assumes run: "\<And>profile params w fl w1. run profile params w = (Inr fl, w1)
      \<Longrightarrow> w1 = w\<lparr>calls := calls w @ cl profile params\<rparr> \<and> Q fl"
    and body: "gen_body ext gs run p w = (Inr p', w1)"
  shows "p' = popped p
    \<and> calls w1 = calls w @ cl (fst (dict_pop ''profile'' PNone p)) (popped p)
    \<and> csv_closed w1 = csv_closed w \<and> \<not> csv_closed w
    \<and> (\<exists>fl. Q fl \<and> set (keys (result_row ext (popped p) fl)) \<subseteq> set (fieldnames gs)
          \<and> csv w1 = csv w @ [dict_to_list (fieldnames gs) (result_row ext (popped p) fl)])"
proof -
  define profile where "profile = fst (dict_pop ''profile'' PNone p)"
  obtain r0 wa where r0: "run profile (popped p) w = (r0, wa)"
    by (cases "run profile (popped p) w")
  obtain r2 wb where r2: "result2csvrow ext gs (popped p) (projr r0) wa = (r2, wb)"
    by (cases "result2csvrow ext gs (popped p) (projr r0) wa")
  from body r0 r2 have "\<exists>fl. r0 = Inr fl" "r2 = Inr ()" "wb = w1" "p' = popped p"
    by (auto simp: gen_body_def Let_def split_def popped_def profile_def split: sum.splits)
  with r0 r2 obtain fl where r: "run profile (popped p) w = (Inr fl, wa)"
    and wr: "writerow (fieldnames gs) (result_row ext (popped p) fl) wa = (Inr (), w1)"
    and p': "p' = popped p"
    by (auto simp: result2csvrow_def)
  from run [OF r] have wa: "wa = w\<lparr>calls := calls w @ cl profile (popped p)\<rparr>" and q: "Q fl"
    by simp_all
  from wr show ?thesis
  proof (cases rule: writerow_cases)
    case raise
    then show ?thesis by simp
  next
    case written
    with wa q p' show ?thesis unfolding profile_def by auto
  qed
qed

lemma repeat_runs_Inr:
  assumes "repeat_runs ext gs plain prof profile params n w = (Inr fl, w1)"
  shows "w1 = w\<lparr>calls := calls w @ replicate n
           (RunFixedFast (model gs) (fst (if truthy profile then prof else plain))
             (snd (if truthy profile then prof else plain)) (wvfp gs) profile params)\<rparr>
         \<and> length fl = n"
  using repeat_runs_log [OF assms] by auto

lemma fixed_body_Inr:
  assumes "fixed_body ext gs plain prof p w = (Inr p', w1)"
  shows "p' = popped p
    \<and> calls w1 = calls w @ replicate (nat (repeat gs))
        (RunFixedFast (model gs)
           (fst (if truthy (fst (dict_pop ''profile'' PNone p)) then prof else plain))
           (snd (if truthy (fst (dict_pop ''profile'' PNone p)) then prof else plain))
           (wvfp gs) (fst (dict_pop ''profile'' PNone p)) (popped p))
    \<and> csv_closed w1 = csv_closed w \<and> \<not> csv_closed w
    \<and> (\<exists>fl. length fl = nat (repeat gs)
          \<and> set (keys (result_row ext (popped p) fl)) \<subseteq> set (fieldnames gs)
          \<and> csv w1 = csv w @ [dict_to_list (fieldnames gs) (result_row ext (popped p) fl)])"
  by (rule gen_body_Inr [OF _ assms [unfolded fixed_body_gen]]) (erule repeat_runs_Inr)

lemma xval_body_Inr:
  assumes "xval_body ext gs plain prof p w = (Inr p', w1)"
  shows "p' = popped p
    \<and> calls w1 = calls w @
        [RunXval (model gs) (if truthy (fst (dict_pop ''profile'' PNone p)) then prof else plain)
           (wvfp gs) (fst (dict_pop ''profile'' PNone p)) (cv gs) (popped p)]
    \<and> csv_closed w1 = csv_closed w \<and> \<not> csv_closed w
    \<and> (\<exists>fl. True
          \<and> set (keys (result_row ext (popped p) fl)) \<subseteq> set (fieldnames gs)
          \<and> csv w1 = csv w @ [dict_to_list (fieldnames gs) (result_row ext (popped p) fl)])"
proof (rule gen_body_Inr [OF _ assms [unfolded xval_body_gen]])
  fix profile params w fl w1
  assume "call_run_xval ext gs plain prof profile params w = (Inr fl, w1)"
  then show "w1 = w\<lparr>calls := calls w @
        [RunXval (model gs) (if truthy profile then prof else plain) (wvfp gs) profile
           (cv gs) params]\<rparr> \<and> True"
    by (simp add: call_run_xval_eq)
qed

section \<open>Rows and the header\<close>

lemma header_columns:
  assumes "init m wv rd rp c p lf w = (Inr gs, w1)"
  shows "set (fieldnames gs) = set (keys (hd (param_grid gs)))
           \<union> fmacro_key ` {0..<nat (repeat gs)} \<union> {''fmacro_avg'', ''fmacro_std''}"
  using init_Inr_fields [OF assms] by auto

lemma fmacro_key_not_param:
  assumes "param_keys_ok g" "q \<in> set g"
  shows "fmacro_key i \<notin> set (keys q)"
proof
  assume "fmacro_key i \<in> set (keys q)"
  with assms have "take 7 (fmacro_key i) \<noteq> ''fmacro_''"
    unfolding param_keys_ok_def by blast
  then show False by (simp add: fmacro_key_prefix)
qed

lemma fmacro_column_in_header:
  assumes "init m wv rd rp c p lf w = (Inr gs, w1)"
  shows "fmacro_key i \<in> set (fieldnames gs) \<longleftrightarrow> i < nat (repeat gs)"
proof -
  from init_Inr_fields [OF assms] have ne: "param_grid gs \<noteq> []" by simp
  then have "hd (param_grid gs) \<in> set (param_grid gs)" by simp
  from fmacro_key_not_param [OF init_Inr_keys [OF assms] this]
  have "fmacro_key i \<notin> set (keys (hd (param_grid gs)))" .
  moreover have "fmacro_key i \<in> fmacro_key ` {0..<nat (repeat gs)} \<longleftrightarrow> i < nat (repeat gs)"
    by (auto dest: fmacro_key_inj)
  ultimately show ?thesis
    unfolding header_columns [OF assms] using fmacro_key_not_stat [of i] by simp
qed

lemma profile_in_header:
  assumes "init m wv rd rp c p lf w = (Inr gs, w1)"
  shows "''profile'' \<in> set (keys (hd (param_grid gs)))" "''profile'' \<in> set (fieldnames gs)"
proof -
  from init_Inr_fields [OF assms] have "hd (param_grid gs) \<in> set (param_grid gs)" by simp
  with init_Inr_keys [OF assms] show "''profile'' \<in> set (keys (hd (param_grid gs)))"
    unfolding param_keys_ok_def by blast
  then show "''profile'' \<in> set (fieldnames gs)"
    unfolding header_columns [OF assms] by simp
qed

lemma row_keys_in_header:
  assumes init: "init m wv rd rp c p lf w = (Inr gs, w1)"
    and q: "q \<in> set (param_grid gs)" and fl: "length fl \<le> nat (repeat gs)"
  shows "set (keys (result_row ext (popped q) fl)) \<subseteq> set (fieldnames gs)"
proof -
  from init_Inr_fields [OF init] have "hd (param_grid gs) \<in> set (param_grid gs)" by simp
  with init_Inr_keys [OF init] q have "set (keys q) = set (keys (hd (param_grid gs)))"
    unfolding param_keys_ok_def by blast
  then have "set (keys (popped q)) \<subseteq> set (keys (hd (param_grid gs)))"
    unfolding popped_def keys_dict_pop by blast
  moreover from fl have "fmacro_key ` {0..<length fl} \<subseteq> fmacro_key ` {0..<nat (repeat gs)}"
    by auto
  ultimately show ?thesis
    unfolding keys_result_row header_columns [OF init] by blast
qed

lemma profile_not_in_row: "''profile'' \<notin> set (keys (result_row ext (popped q) fl))"
  unfolding keys_result_row popped_def keys_dict_pop
  by (auto simp: fmacro_key_def)

lemma profile_cell_empty:
  assumes "i < length names" "names ! i = ''profile''"
  shows "dict_to_list names (result_row ext (popped q) fl) ! i = PStr []"
  using assms profile_not_in_row [of ext q fl] by (simp add: dict_to_list_absent)


section \<open>The two operations as a whole\<close>

lemma logged_closed_update:
  "logged ext P w outcome w1 \<Longrightarrow> logged ext P w outcome (w1\<lparr>csv_closed := csv_closed w\<rparr>)"
  unfolding logged_def by auto

lemma fixed_logged:
  fixes ext :: "'d externals"
  assumes run: "fixed ext gs trainfp testfp w = (res, w1)"
    and P: "\<And>p fl. P (dict_to_list (fieldnames gs) (result_row ext (popped p) fl))"
  shows "logged ext P w (err_of res) (w1\<lparr>csv_closed := csv_closed w\<rparr>)
         \<and> csv_closed w1 = (csv_closed w \<or> err_of res = None)"
  using run
proof (cases rule: fixed_cases)
  case (raise e)
  from raise(2) [of P, OF P] have l: "logged ext P w (Some e) w1" .
  then have "csv_closed w1 = csv_closed w" unfolding logged_def by blast
  with logged_closed_update [OF l] raise(1) show ?thesis by simp
next
  case (finished tr trp te tep w4 grid w5)
  have "logged ext P w4 (err_of (Inr grid :: error + pyval pydict list)) w5"
    by (rule fixed_loop_logged [where P = P, OF _ finished(6)]) (rule P)
  then obtain cs rows where a: "calls w5 = calls w4 @ cs"
    "trace_ok ext (length (calls w4)) None cs" "csv w5 = csv w4 @ rows"
    "\<forall>row \<in> set rows. P row" "csv_closed w5 = csv_closed w4"
    unfolding logged_def by auto
  define loads :: "'d call list" where "loads = [LoadData (path_join (path gs) trainfp) False,
           LoadData (path_join (path gs) trainfp) True,
           LoadData (path_join (path gs) testfp) False,
           LoadData (path_join (path gs) testfp) True]"
  have w4: "w4 = w\<lparr>calls := calls w @ loads\<rparr>" by (simp add: finished(5) loads_def)
  have "trace_ok ext (length (calls w)) None loads"
    by (simp add: loads_def trace_ok_list finished(1-4))
  moreover have "trace_ok ext (length (calls w) + length loads) None cs"
    using a(2) by (simp add: w4)
  ultimately have "trace_ok ext (length (calls w)) None (loads @ cs)"
    by (rule trace_ok_append)
  moreover have "calls w1 = calls w @ loads @ cs" by (simp add: finished(8) a(1) w4)
  moreover have "csv w1 = csv w @ rows" by (simp add: finished(8) a(3) w4)
  ultimately have "logged ext P w None (w1\<lparr>csv_closed := csv_closed w\<rparr>)"
    unfolding logged_def using a(4) by (intro exI [of _ "loads @ cs"] exI [of _ rows]) simp
  with finished(7,8) show ?thesis by simp
qed

lemma xval_logged:
  fixes ext :: "'d externals"
  assumes run: "xval ext gs datafp w = (res, w1)"
    and P: "\<And>p fl. P (dict_to_list (fieldnames gs) (result_row ext (popped p) fl))"
  shows "logged ext P w (err_of res) (w1\<lparr>csv_closed := csv_closed w\<rparr>)
         \<and> csv_closed w1 = (csv_closed w \<or> err_of res = None)"
  using run
proof (cases rule: xval_cases)
  case (raise e)
  from raise(2) [of P, OF P] have l: "logged ext P w (Some e) w1" .
  then have "csv_closed w1 = csv_closed w" unfolding logged_def by blast
  with logged_closed_update [OF l] raise(1) show ?thesis by simp
next
  case (finished d dp w2 grid w3)
  have "logged ext P w2 (err_of (Inr grid :: error + pyval pydict list)) w3"
    by (rule xval_loop_logged [where P = P, OF _ finished(4)]) (rule P)
  then obtain cs rows where a: "calls w3 = calls w2 @ cs"
    "trace_ok ext (length (calls w2)) None cs" "csv w3 = csv w2 @ rows"
    "\<forall>row \<in> set rows. P row" "csv_closed w3 = csv_closed w2"
    unfolding logged_def by auto
  define loads :: "'d call list" where "loads = [LoadData (path_join (path gs) datafp) False,
           LoadData (path_join (path gs) datafp) True]"
  have w2: "w2 = w\<lparr>calls := calls w @ loads\<rparr>" by (simp add: finished(3) loads_def)
  have "trace_ok ext (length (calls w)) None loads"
    by (simp add: loads_def trace_ok_list finished(1-2))
  moreover have "trace_ok ext (length (calls w) + length loads) None cs"
    using a(2) by (simp add: w2)
  ultimately have "trace_ok ext (length (calls w)) None (loads @ cs)"
    by (rule trace_ok_append)
  moreover have "calls w1 = calls w @ loads @ cs" by (simp add: finished(6) a(1) w2)
  moreover have "csv w1 = csv w @ rows" by (simp add: finished(6) a(3) w2)
  ultimately have "logged ext P w None (w1\<lparr>csv_closed := csv_closed w\<rparr>)"
    unfolding logged_def using a(4) by (intro exI [of _ "loads @ cs"] exI [of _ rows]) simp
  with finished(5,6) show ?thesis by simp
qed

lemma sweep_logged:
  assumes run: "fixed ext gs trainfp testfp w = (res, w1) \<or> xval ext gs datafp w = (res, w1)"
    and P: "\<And>p fl. P (dict_to_list (fieldnames gs) (result_row ext (popped p) fl))"
  shows "\<exists>cs rows. calls w1 = calls w @ cs \<and> trace_ok ext (length (calls w)) (err_of res) cs
        \<and> csv w1 = csv w @ rows \<and> (\<forall>row \<in> set rows. P row)
        \<and> csv_closed w1 = (csv_closed w \<or> err_of res = None)"
proof -
  from run have "logged ext P w (err_of res) (w1\<lparr>csv_closed := csv_closed w\<rparr>)
         \<and> csv_closed w1 = (csv_closed w \<or> err_of res = None)"
  proof
    assume "fixed ext gs trainfp testfp w = (res, w1)"
    then show ?thesis by (rule fixed_logged) (rule P)
  next
    assume "xval ext gs datafp w = (res, w1)"
    then show ?thesis by (rule xval_logged) (rule P)
  qed
  then show ?thesis unfolding logged_def by simp
qed

section \<open>The result file\<close>

text \<open>
  C2.  After a successful construction, whatever way \<open>fixed\<close> or \<open>xval\<close> ends, the header
  of the result file has a \<open>profile\<close> column, and every data row written has an empty
  cell in each \<open>profile\<close> column.
\<close>

theorem profile_column_empty:
  assumes init: "init m wv rd rp c p lf w0 = (Inr gs, w1)"
    and run: "fixed ext gs trainfp testfp w1 = (res, w2) \<or> xval ext gs datafp w1 = (res, w2)"
  shows "''profile'' \<in> set (fieldnames gs) \<and> hd (csv w2) = map PStr (fieldnames gs)
    \<and> (\<forall>row \<in> set (tl (csv w2)). length row = length (fieldnames gs)
         \<and> (\<forall>i < length row. fieldnames gs ! i = ''profile'' \<longrightarrow> row ! i = PStr []))"
proof -
  define P where "P row \<longleftrightarrow> length row = length (fieldnames gs)
         \<and> (\<forall>i < length row. fieldnames gs ! i = ''profile'' \<longrightarrow> row ! i = PStr [])" for row
  have P: "P (dict_to_list (fieldnames gs) (result_row ext (popped q) fl))" for q fl
    unfolding P_def by (simp add: length_dict_to_list profile_cell_empty)
  from sweep_logged [where P = P, OF run P] obtain rows
    where "csv w2 = csv w1 @ rows" "\<forall>row \<in> set rows. P row" by blast
  with init_Inr_fields [OF init] have "hd (csv w2) = map PStr (fieldnames gs)"
    "\<forall>row \<in> set (tl (csv w2)). P row" by simp_all
  with profile_in_header(2) [OF init] show ?thesis unfolding P_def by blast
qed

section \<open>Exceptions\<close>

text \<open>
  C4.  If a call made by \<open>fixed\<close> or \<open>xval\<close> to the data loader or to a training routine
  raises, the operation ends with that exception, the raising call is the last call it
  makes (nothing is retried, no later ParameterSet is processed), and the result file
  is not closed.
\<close>

theorem exception_aborts_sweep:
  assumes run: "fixed ext gs trainfp testfp w = (res, w1) \<or> xval ext gs datafp w = (res, w1)"
    and n: "length (calls w) \<le> n" "n < length (calls w1)"
    and r: "raised ext n (calls w1 ! n) = Some e"
  shows "res = Inl e \<and> Suc n = length (calls w1)
    \<and> take (length (calls w)) (calls w1) = calls w \<and> csv_closed w1 = csv_closed w"
proof -
  have "\<exists>cs rows. calls w1 = calls w @ cs
        \<and> trace_ok ext (length (calls w)) (err_of res) cs
        \<and> csv w1 = csv w @ rows \<and> (\<forall>row \<in> set rows. True)
        \<and> csv_closed w1 = (csv_closed w \<or> err_of res = None)"
    by (rule sweep_logged [OF run]) simp
  then obtain cs
    where cs: "calls w1 = calls w @ cs"
      and t: "trace_ok ext (length (calls w)) (err_of res) cs"
      and cl: "csv_closed w1 = (csv_closed w \<or> err_of res = None)"
    by (elim exE conjE) (rule that; assumption)
  define i where "i = n - length (calls w)"
  from n cs have i: "i < length cs" and ni: "n = length (calls w) + i"
    by (simp_all add: i_def)
  from r have "raised ext (length (calls w) + i) (cs ! i) = Some e"
    by (simp add: cs ni nth_append)
  with t i have "err_of res = Some e" "Suc i = length cs"
    unfolding trace_ok_def by blast+
  then show ?thesis using cs cl ni by (cases res) simp_all
qed


section \<open>Cells of a result row\<close>

lemma map_of_dict_update:
  "distinct (keys e) \<Longrightarrow> map_of (dict_update d e) = map_of d ++ map_of e"
proof (induction e arbitrary: d)
  case Nil
  then show ?case by simp
next
  case (Cons p e)
  from Cons.prems have k: "fst p \<notin> set (keys e)" and d: "distinct (keys e)"
    by (simp_all add: keys_def)
  then have none: "map_of e (fst p) = None"
    by (simp add: keys_def map_of_eq_None_iff)
  have "map_of (dict_update d (p # e)) = (map_of d)(fst p \<mapsto> snd p) ++ map_of e"
    using Cons.IH [OF d, of "dict_set (fst p) (snd p) d"]
    by (simp only: dict_update.simps map_of_dict_set)
  also have "\<dots> = map_of d ++ map_of (p # e)"
    using none by (cases p) (auto simp: map_add_def fun_eq_iff split: option.splits)
  finally show ?case .
qed

lemma fmacro_items_zip:
  "map (\<lambda>(i, v). (fmacro_key i, PFloat v)) (enumerate 0 fl)
   = zip (map fmacro_key [0..<length fl]) (map PFloat fl)"
  by (simp add: enumerate_eq_zip zip_map1 zip_map2 split_def)

lemma distinct_fmacro_keys: "distinct (map fmacro_key [0..<n])"
  by (simp add: distinct_map inj_on_def) (blast dest: fmacro_key_inj)

lemma map_of_fmacro_items:
  "map_of (map (\<lambda>(i, v). (fmacro_key i, PFloat v)) (enumerate 0 fl)) (fmacro_key j)
   = (if j < length fl then Some (PFloat (fl ! j)) else None)"
proof (cases "j < length fl")
  case True
  have "map_of (zip (map fmacro_key [0..<length fl]) (map PFloat fl))
          (map fmacro_key [0..<length fl] ! j) = Some (map PFloat fl ! j)"
    using True by (intro map_of_zip_nth) (simp_all add: distinct_fmacro_keys)
  with True show ?thesis by (simp add: fmacro_items_zip)
next
  case False
  then have "fmacro_key j \<notin> fmacro_key ` {0..<length fl}"
    by (auto dest: fmacro_key_inj)
  then have "fmacro_key j \<notin> set (keys (map (\<lambda>(i, v). (fmacro_key i, PFloat v)) (enumerate 0 fl)))"
    by (simp add: keys_fmacro_items)
  with False show ?thesis by (simp add: keys_def map_of_eq_None_iff image_image)
qed

lemma score_cell:
  assumes "fmacro_key j \<notin> set (keys params)"
  shows "dict_get (result_row ext params fl) (fmacro_key j) (PStr [])
         = (if j < length fl then PFloat (fl ! j) else PStr [])"
proof -
  have "map_of (result_row ext params fl) (fmacro_key j)
        = map_of (dict_update [] (map (\<lambda>(i, v). (fmacro_key i, PFloat v)) (enumerate 0 fl)))
            (fmacro_key j)"
    unfolding result_row_def Let_def
    using assms fmacro_key_not_stat [of j]
    by (simp add: map_of_dict_update_other map_of_dict_set)
  also have "\<dots> = (if j < length fl then Some (PFloat (fl ! j)) else None)"
    by (simp add: map_of_dict_update keys_fmacro_items distinct_fmacro_keys
        map_of_fmacro_items)
  finally show ?thesis by (simp add: dict_get_def)
qed


lemma too_many_scores:
  assumes init: "init m wv rd rp c p lf w0 = (Inr gs, w1)"
    and fl: "nat rp < length fl"
  shows "result2csvrow ext gs params fl w = (Inl ValueError, w)"
proof -
  from init_Inr_fields [OF init] have rp: "repeat gs = rp" by simp
  from fl have "fmacro_key (nat rp) \<in> set (keys (result_row ext params fl))"
    unfolding keys_result_row by simp
  moreover have "fmacro_key (nat rp) \<notin> set (fieldnames gs)"
    unfolding fmacro_column_in_header [OF init] rp by simp
  ultimately show ?thesis unfolding result2csvrow_def by (rule writerow_raise)
qed

lemma few_scores:
  fixes ext :: "'d externals"
  assumes init: "init m wv rd rp c p lf w0 = (Inr gs, w1)"
    and q: "q \<in> set (param_grid gs)" and fl: "length fl \<le> nat rp" and op: "\<not> csv_closed w"
  defines "row \<equiv> dict_to_list (fieldnames gs) (result_row ext (popped q) fl)"
  shows "result2csvrow ext gs (popped q) fl w = (Inr (), w\<lparr>csv := csv w @ [row]\<rparr>)"
    and "length row = length (fieldnames gs)"
    and "i < length row \<Longrightarrow> fieldnames gs ! i = fmacro_key j
           \<Longrightarrow> row ! i = (if j < length fl then PFloat (fl ! j) else PStr [])"
proof -
  from init_Inr_fields [OF init] have rp: "repeat gs = rp" by simp
  from row_keys_in_header [OF init q, of fl ext] fl rp
  have "set (keys (result_row ext (popped q) fl)) \<subseteq> set (fieldnames gs)" by simp
  then show "result2csvrow ext gs (popped q) fl w = (Inr (), w\<lparr>csv := csv w @ [row]\<rparr>)"
    unfolding result2csvrow_def row_def using op by (rule writerow_ok)
  show len: "length row = length (fieldnames gs)"
    by (simp add: row_def length_dict_to_list)
  assume i: "i < length row" and k: "fieldnames gs ! i = fmacro_key j"
  have "fmacro_key j \<notin> set (keys q)"
    by (rule fmacro_key_not_param [OF init_Inr_keys [OF init] q])
  then have "fmacro_key j \<notin> set (keys (popped q))"
    unfolding popped_def keys_dict_pop by simp
  from score_cell [OF this, of ext fl] i k len
  show "row ! i = (if j < length fl then PFloat (fl ! j) else PStr [])"
    by (simp add: row_def dict_to_list_def)
qed

lemma xval_first_row_raises:
  fixes ext :: "'d externals"
  assumes init: "init m wv rd rp c p lf w0 = (Inr gs, w1)"
    and d: "load_data ext (path_join p datafp) False = Inr d"
    and dp: "load_data ext (path_join p datafp) True = Inr dp"
    and run: "run_xval ext (length (calls w1) + 2) m
        (if truthy (fst (dict_pop ''profile'' PNone (hd (param_grid gs)))) then dp else d)
        (wvfp gs) (fst (dict_pop ''profile'' PNone (hd (param_grid gs)))) c
        (popped (hd (param_grid gs))) = Inr fl"
    and fl: "nat rp < length fl"
  shows "\<exists>w2. xval ext gs datafp w1 = (Inl ValueError, w2) \<and> csv w2 = csv w1
           \<and> \<not> csv_closed w2 \<and> length (calls w2) = length (calls w1) + 3"
proof -
  note f = init_Inr_fields [OF init]
  from f obtain first rest where grid: "param_grid gs = first # rest"
    by (cases "param_grid gs") auto
  define w2 :: "'d world" where "w2 = w1\<lparr>calls := calls w1 @
      [LoadData (path_join p datafp) False, LoadData (path_join p datafp) True]\<rparr>"
  define profile where "profile = fst (dict_pop ''profile'' PNone first)"
  define w3 :: "'d world" where "w3 = w2\<lparr>calls := calls w2 @
      [RunXval m (if truthy profile then dp else d) (wvfp gs) profile c (popped first)]\<rparr>"
  have call: "call_run_xval ext gs d dp profile (popped first) w2 = (Inr fl, w3)"
    using run f by (simp add: call_run_xval_eq w2_def w3_def grid profile_def)
  have "xval_body ext gs d dp first w2 = (Inl ValueError, w3)"
    using call too_many_scores [OF init fl, of ext "popped first" w3]
    by (simp add: xval_body_def filter_useless_combs_def split_def popped_def profile_def)
  then have "for_params (xval_body ext gs d dp) (param_grid gs) w2 = (Inl ValueError, w3)"
    by (simp add: grid)
  then have "xval ext gs datafp w1 = (Inl ValueError, w3)"
    using d dp f by (simp add: xval_def call_load_data_eq w2_def)
  moreover have "csv w3 = csv w1" "\<not> csv_closed w3" "length (calls w3) = length (calls w1) + 3"
    using f by (simp_all add: w3_def w2_def)
  ultimately show ?thesis by blast
qed

text \<open>
  C7.  After a successful construction the header has exactly \<open>repeat\<close> score columns.
  A score sequence longer than \<open>repeat\<close> makes \<open>_result2csvrow\<close> raise \<open>ValueError\<close>
  without writing; when the cross-validation runner returns such a sequence for the first
  ParameterSet, \<open>xval\<close> ends with \<open>ValueError\<close> after that one call, with only the header
  in the file and the file not closed.  A score sequence of at most \<open>repeat\<close> scores gives
  a row in which score column \<open>j\<close> holds score \<open>j\<close> when there is one and is empty
  otherwise.
\<close>

theorem xval_score_columns:
  assumes init: "init m wv rd rp c p lf w0 = (Inr gs, w1)"
  shows "(nat rp < length fl \<longrightarrow> result2csvrow ext gs params fl w = (Inl ValueError, w))
    \<and> (q \<in> set (param_grid gs) \<and> length fl \<le> nat rp \<and> \<not> csv_closed w \<longrightarrow>
         (\<exists>row. result2csvrow ext gs (popped q) fl w = (Inr (), w\<lparr>csv := csv w @ [row]\<rparr>)
            \<and> length row = length (fieldnames gs)
            \<and> (\<forall>i j. i < length row \<and> fieldnames gs ! i = fmacro_key j
                  \<longrightarrow> row ! i = (if j < length fl then PFloat (fl ! j) else PStr []))))
    \<and> (load_data ext (path_join p datafp) False = Inr d
        \<and> load_data ext (path_join p datafp) True = Inr dp
        \<and> run_xval ext (length (calls w1) + 2) m
            (if truthy (fst (dict_pop ''profile'' PNone (hd (param_grid gs)))) then dp else d)
            (wvfp gs) (fst (dict_pop ''profile'' PNone (hd (param_grid gs)))) c
            (popped (hd (param_grid gs))) = Inr fl
        \<and> nat rp < length fl \<longrightarrow>
         (\<exists>w2. xval ext gs datafp w1 = (Inl ValueError, w2) \<and> csv w2 = csv w1
            \<and> \<not> csv_closed w2 \<and> length (calls w2) = length (calls w1) + 3))"
proof (intro conjI impI)
  assume "nat rp < length fl"
  with init show "result2csvrow ext gs params fl w = (Inl ValueError, w)"
    by (rule too_many_scores)
next
  assume a: "q \<in> set (param_grid gs) \<and> length fl \<le> nat rp \<and> \<not> csv_closed w"
  then have q: "q \<in> set (param_grid gs)" and fl: "length fl \<le> nat rp"
    and op: "\<not> csv_closed w" by simp_all
  note r = few_scores [where ext = ext, OF init q fl op]
  show "\<exists>row. result2csvrow ext gs (popped q) fl w = (Inr (), w\<lparr>csv := csv w @ [row]\<rparr>)
            \<and> length row = length (fieldnames gs)
            \<and> (\<forall>i j. i < length row \<and> fieldnames gs ! i = fmacro_key j
                  \<longrightarrow> row ! i = (if j < length fl then PFloat (fl ! j) else PStr []))"
    using r(1,2) r(3) by (intro exI conjI allI impI) (assumption, assumption, blast)
next
  assume "load_data ext (path_join p datafp) False = Inr d
        \<and> load_data ext (path_join p datafp) True = Inr dp
        \<and> run_xval ext (length (calls w1) + 2) m
            (if truthy (fst (dict_pop ''profile'' PNone (hd (param_grid gs)))) then dp else d)
            (wvfp gs) (fst (dict_pop ''profile'' PNone (hd (param_grid gs)))) c
            (popped (hd (param_grid gs))) = Inr fl
        \<and> nat rp < length fl"
  then show "\<exists>w2. xval ext gs datafp w1 = (Inl ValueError, w2) \<and> csv w2 = csv w1
            \<and> \<not> csv_closed w2 \<and> length (calls w2) = length (calls w1) + 3"
    using xval_first_row_raises [OF init] by blast
qed


section \<open>Completed sweeps\<close>

lemma kept_all: "filter (\<lambda>q. \<not> filter_useless_combs q) ps = ps"
  by (simp add: filter_useless_combs_def)

lemma fixed_sweep_Inr:
  assumes "for_params (fixed_body ext gs plain prof) ps w = (Inr grid, w1)"
  shows "grid = map popped ps
    \<and> calls w1 = calls w @ concat (map (\<lambda>q. replicate (nat (repeat gs))
        (RunFixedFast (model gs)
           (fst (if truthy (fst (dict_pop ''profile'' PNone q)) then prof else plain))
           (snd (if truthy (fst (dict_pop ''profile'' PNone q)) then prof else plain))
           (wvfp gs) (fst (dict_pop ''profile'' PNone q)) (popped q))) ps)
    \<and> csv_closed w1 = csv_closed w
    \<and> (\<exists>rows. list_all2 (\<lambda>q row. \<exists>fl. length fl = nat (repeat gs)
            \<and> row = dict_to_list (fieldnames gs) (result_row ext (popped q) fl)) ps rows
          \<and> csv w1 = csv w @ rows)"
proof (rule for_params_Inr [OF _ assms])
  fix q w q' w1
  assume "fixed_body ext gs plain prof q w = (Inr q', w1)"
  from fixed_body_Inr [OF this]
  show "q' = popped q
    \<and> calls w1 = calls w @ replicate (nat (repeat gs))
        (RunFixedFast (model gs)
           (fst (if truthy (fst (dict_pop ''profile'' PNone q)) then prof else plain))
           (snd (if truthy (fst (dict_pop ''profile'' PNone q)) then prof else plain))
           (wvfp gs) (fst (dict_pop ''profile'' PNone q)) (popped q))
    \<and> csv_closed w1 = csv_closed w
    \<and> (\<exists>row. (\<exists>fl. length fl = nat (repeat gs)
            \<and> row = dict_to_list (fieldnames gs) (result_row ext (popped q) fl))
          \<and> csv w1 = csv w @ [row])"
    by blast
qed

lemma xval_sweep_Inr:
  assumes "for_params (xval_body ext gs plain prof) ps w = (Inr grid, w1)"
  shows "grid = map popped ps
    \<and> calls w1 = calls w @ concat (map (\<lambda>q.
        [RunXval (model gs) (if truthy (fst (dict_pop ''profile'' PNone q)) then prof else plain)
           (wvfp gs) (fst (dict_pop ''profile'' PNone q)) (cv gs) (popped q)]) ps)
    \<and> csv_closed w1 = csv_closed w
    \<and> (\<exists>rows. list_all2 (\<lambda>q row. \<exists>fl.
            row = dict_to_list (fieldnames gs) (result_row ext (popped q) fl)) ps rows
          \<and> csv w1 = csv w @ rows)"
proof (rule for_params_Inr [OF _ assms])
  fix q w q' w1
  assume "xval_body ext gs plain prof q w = (Inr q', w1)"
  from xval_body_Inr [OF this]
  show "q' = popped q
    \<and> calls w1 = calls w @
        [RunXval (model gs) (if truthy (fst (dict_pop ''profile'' PNone q)) then prof else plain)
           (wvfp gs) (fst (dict_pop ''profile'' PNone q)) (cv gs) (popped q)]
    \<and> csv_closed w1 = csv_closed w
    \<and> (\<exists>row. (\<exists>fl. row = dict_to_list (fieldnames gs) (result_row ext (popped q) fl))
          \<and> csv w1 = csv w @ [row])"
    by blast
qed

lemma rows_length:
  assumes "list_all2 R ps rows" and "\<And>q row. R q row \<Longrightarrow> length row = n"
  shows "\<forall>row \<in> set rows. length row = n"
  using assms(1) by (induction rule: list_all2_induct) (auto intro: assms(2))

lemma sweep_rows:
  assumes run: "fixed ext gs trainfp testfp w = (Inr gs', w1)
                \<or> xval ext gs datafp w = (Inr gs', w1)"
  shows "\<exists>rows. csv w1 = csv w @ rows \<and> length rows = length (param_grid gs)
           \<and> (\<forall>row \<in> set rows. length row = length (fieldnames gs)) \<and> csv_closed w1"
  using run
proof
  assume "fixed ext gs trainfp testfp w = (Inr gs', w1)"
  then show ?thesis
  proof (cases rule: fixed_cases)
    case (finished tr trp te tep w4 grid w5)
    from fixed_sweep_Inr [OF finished(6)] obtain rows
      where r: "list_all2 (\<lambda>q row. \<exists>fl. length fl = nat (repeat gs)
            \<and> row = dict_to_list (fieldnames gs) (result_row ext (popped q) fl))
            (param_grid gs) rows" "csv w5 = csv w4 @ rows"
      by blast
    from r(1) have "length rows = length (param_grid gs)"
      by (simp add: list_all2_lengthD)
    moreover from r(1) have "\<forall>row \<in> set rows. length row = length (fieldnames gs)"
      by (rule rows_length) (auto simp: length_dict_to_list)
    moreover have "csv w1 = csv w @ rows" by (simp add: finished(5,8) r(2))
    ultimately show ?thesis using finished(8) by auto
  qed simp
next
  assume "xval ext gs datafp w = (Inr gs', w1)"
  then show ?thesis
  proof (cases rule: xval_cases)
    case (finished d dp w2 grid w3)
    from xval_sweep_Inr [OF finished(4)] obtain rows
      where r: "list_all2 (\<lambda>q row. \<exists>fl.
            row = dict_to_list (fieldnames gs) (result_row ext (popped q) fl))
            (param_grid gs) rows" "csv w3 = csv w2 @ rows"
      by blast
    from r(1) have "length rows = length (param_grid gs)"
      by (simp add: list_all2_lengthD)
    moreover from r(1) have "\<forall>row \<in> set rows. length row = length (fieldnames gs)"
      by (rule rows_length) (auto simp: length_dict_to_list)
    moreover have "csv w1 = csv w @ rows" by (simp add: finished(3,6) r(2))
    ultimately show ?thesis using finished(6) by auto
  qed simp
qed

text \<open>
  C1.  After a successful construction and a sweep (\<open>fixed\<close> or \<open>xval\<close>) that completes,
  the first line of the result file is the header: the keys of the first ParameterSet,
  then \<open>fmacro_1\<close> ... \<open>fmacro_repeat\<close>, then \<open>fmacro_avg\<close> and \<open>fmacro_std\<close>.  It is
  followed by exactly one row for each ParameterSet that the filter predicate does not
  skip, every row has one cell per header column, and the file has been closed.
\<close>

theorem csv_layout:
  assumes init: "init m wv rd rp c p lf w0 = (Inr gs, w1)"
    and run: "fixed ext gs trainfp testfp w1 = (Inr gs', w2)
              \<or> xval ext gs datafp w1 = (Inr gs', w2)"
  shows "param_grid gs \<noteq> []
    \<and> hd (csv w2) = map PStr (keys (hd (param_grid gs)) @ map fmacro_key [0..<nat rp]
                       @ [''fmacro_avg'', ''fmacro_std''])
    \<and> length (tl (csv w2)) = length (filter (\<lambda>q. \<not> filter_useless_combs q) (param_grid gs))
    \<and> (\<forall>row \<in> set (csv w2). length row = length (hd (csv w2)))
    \<and> csv_closed w2"
proof -
  note f = init_Inr_fields [OF init]
  from sweep_rows [OF run] obtain rows where r: "csv w2 = csv w1 @ rows"
    "length rows = length (param_grid gs)"
    "\<forall>row \<in> set rows. length row = length (fieldnames gs)" "csv_closed w2"
    by blast
  from f r(1) have csv: "csv w2 = map PStr (fieldnames gs) # rows" by simp
  have "\<forall>row \<in> set (csv w2). length row = length (hd (csv w2))"
    unfolding csv using r(3) by simp
  moreover have "hd (csv w2) = map PStr (keys (hd (param_grid gs))
      @ map fmacro_key [0..<nat rp] @ [''fmacro_avg'', ''fmacro_std''])"
    unfolding csv using f by simp
  ultimately show ?thesis using f r(2,4) csv by (simp add: kept_all)
qed

text \<open>
  C5.  When \<open>fixed\<close> completes, the log of external calls it has added is: the four
  loads (training file without and with profile, test file without and with profile),
  and then, for each ParameterSet that is not skipped and in order, \<open>repeat\<close> calls of
  \<open>run_fixed_fast\<close> on the popped ParameterSet with the extracted profile flag, on the
  profile data when the flag is truthy and on the no-profile data otherwise.  For each of
  these ParameterSets one row has been appended to the result file, built from the
  popped ParameterSet and a score sequence of length \<open>repeat\<close>; and the parameter space
  holds the popped ParameterSets, which have no \<open>profile\<close> key.
\<close>

theorem fixed_protocol:
  assumes run: "fixed ext gs trainfp testfp w = (Inr gs', w1)"
  shows "\<exists>tr trp te tep rows.
      load_data ext (path_join (path gs) trainfp) False = Inr tr
    \<and> load_data ext (path_join (path gs) trainfp) True = Inr trp
    \<and> load_data ext (path_join (path gs) testfp) False = Inr te
    \<and> load_data ext (path_join (path gs) testfp) True = Inr tep
    \<and> calls w1 = calls w @
        [LoadData (path_join (path gs) trainfp) False,
         LoadData (path_join (path gs) trainfp) True,
         LoadData (path_join (path gs) testfp) False,
         LoadData (path_join (path gs) testfp) True]
        @ concat (map (\<lambda>q. replicate (nat (repeat gs))
            (RunFixedFast (model gs)
               (if truthy (fst (dict_pop ''profile'' PNone q)) then trp else tr)
               (if truthy (fst (dict_pop ''profile'' PNone q)) then tep else te)
               (wvfp gs) (fst (dict_pop ''profile'' PNone q)) (popped q)))
            (filter (\<lambda>q. \<not> filter_useless_combs q) (param_grid gs)))
    \<and> csv w1 = csv w @ rows
    \<and> list_all2 (\<lambda>q row. \<exists>fl. length fl = nat (repeat gs)
          \<and> row = dict_to_list (fieldnames gs) (result_row ext (popped q) fl))
        (filter (\<lambda>q. \<not> filter_useless_combs q) (param_grid gs)) rows
    \<and> param_grid gs' = map (\<lambda>q. if filter_useless_combs q then q else popped q) (param_grid gs)
    \<and> (\<forall>q \<in> set (param_grid gs'). ''profile'' \<notin> set (keys q))"
  using run
proof (cases rule: fixed_cases)
  case (finished tr trp te tep w4 grid w5)
  note s = fixed_sweep_Inr [OF finished(6)]
  from s obtain rows
    where r: "list_all2 (\<lambda>q row. \<exists>fl. length fl = nat (repeat gs)
          \<and> row = dict_to_list (fieldnames gs) (result_row ext (popped q) fl))
          (param_grid gs) rows" "csv w5 = csv w4 @ rows"
    by blast
  have sel: "(if b then (trp, tep) else (tr, te)) = (if b then trp else tr, if b then tep else te)"
    for b :: bool by simp
  have c: "calls w1 = calls w @
        [LoadData (path_join (path gs) trainfp) False,
         LoadData (path_join (path gs) trainfp) True,
         LoadData (path_join (path gs) testfp) False,
         LoadData (path_join (path gs) testfp) True]
        @ concat (map (\<lambda>q. replicate (nat (repeat gs))
            (RunFixedFast (model gs)
               (if truthy (fst (dict_pop ''profile'' PNone q)) then trp else tr)
               (if truthy (fst (dict_pop ''profile'' PNone q)) then tep else te)
               (wvfp gs) (fst (dict_pop ''profile'' PNone q)) (popped q)))
            (param_grid gs))"
    using s by (simp add: finished(5,8) sel)
  have g: "param_grid gs' = map popped (param_grid gs)"
    using s finished(7) by simp
  have np: "\<forall>q \<in> set (param_grid gs'). ''profile'' \<notin> set (keys q)"
    unfolding g by (simp add: popped_def keys_dict_pop)
  have csv: "csv w1 = csv w @ rows" by (simp add: finished(5,8) r(2))
  show ?thesis
    using finished(1-4) c csv r(1) g np
    by (intro exI [of _ tr] exI [of _ trp] exI [of _ te] exI [of _ tep] exI [of _ rows])
      (simp add: kept_all filter_useless_combs_def)
qed simp


section \<open>Operations that complete\<close>

lemma supported_not_svm: "supported m \<Longrightarrow> m \<noteq> ''svm''"
  by (auto simp: supported_def crossnet_names_def memnet_names_def transformer_names_def)

lemma randsample_supported:
  assumes "supported m"
  shows "\<exists>ps r'. randsample_params m r = (Inr ps, r')"
proof -
  consider "m \<in> set crossnet_names" | "m \<in> set memnet_names" | "m \<in> set transformer_names"
    using assms unfolding supported_def by blast
  then show ?thesis
  proof cases
    case 1
    from randsample_crossnet [OF 1, of r] show ?thesis by (elim exE conjE) (intro exI)
  next
    case 2
    from randsample_memnet [OF 2, of r] show ?thesis by (elim exE conjE) (intro exI)
  next
    case 3
    from randsample_transformer [OF 3, of r] show ?thesis by (elim exE conjE) (intro exI)
  qed
qed

lemma sample_n_total:
  assumes "supported m"
  shows "\<exists>g r'. sample_n m n r = (Inr g, r')"
proof (induction n arbitrary: r)
  case 0
  show ?case by simp
next
  case (Suc n)
  from randsample_supported [OF assms, of r] obtain ps r1
    where "randsample_params m r = (Inr ps, r1)" by blast
  moreover from Suc [of r1] obtain g r2 where "sample_n m n r1 = (Inr g, r2)" by blast
  ultimately show ?case by simp
qed

lemma get_param_grid_nonempty:
  assumes "supported m"
  shows "\<exists>g. get_param_grid m = Inr g \<and> g \<noteq> []"
proof -
  consider "m \<in> set crossnet_names" | "m \<in> set memnet_names" | "m \<in> set transformer_names"
    using assms unfolding supported_def by blast
  then show ?thesis
  proof cases
    case 1
    from grid_size_crossnet [OF 1] show ?thesis by auto
  next
    case 2
    from grid_size_memnet [OF 2] show ?thesis by auto
  next
    case 3
    from grid_size_transformer [OF 3] show ?thesis by auto
  qed
qed

lemma init_total:
  assumes m: "supported m" and wr: "\<And>f. writable w f"
    and rd: "rd = None \<or> (\<exists>n. rd = Some n \<and> 0 \<le> n)"
  shows "\<exists>gs w1. init m wv rd rp c p lf w = (Inr gs, w1)"
proof -
  note nsvm = supported_not_svm [OF m]
  from get_param_grid_nonempty [OF m] obtain g where g: "get_param_grid m = Inr g" "g \<noteq> []"
    by blast
  from g(2) obtain q0 qs where gq: "g = q0 # qs" by (cases g) auto
  show ?thesis
  proof (cases "rd = None \<or> rd = Some 0")
    case True
    then show ?thesis
      using nsvm g(1) gq wr by (auto simp: init_def Let_def)
  next
    case False
    with rd obtain n where rn: "rd = Some n" "0 \<le> n" "n \<noteq> 0" by auto
    then have n: "rd = Some n" "0 < n" by simp_all
    from sample_n_total [OF m, of "nat n" "rng w"] obtain s r'
      where s: "sample_n m (nat n) (rng w) = (Inr s, r')" by blast
    from sample_n_length [OF s] n(2) have "s \<noteq> []" by auto
    then obtain s0 ss where "s = s0 # ss" by (cases s) auto
    with s n nsvm wr show ?thesis by (auto simp: init_def Let_def)
  qed
qed

lemma init_grid_source:
  assumes "init m wv None rp c p lf w = (Inr gs, w1)"
  shows "get_param_grid m = Inr (param_grid gs)"
  using assms
  by (auto simp: init_def Let_def split: if_splits prod.splits sum.splits list.splits)

lemma init_random_source:
  assumes "init m wv (Some n) rp c p lf w = (Inr gs, w1)" and "n \<noteq> 0"
  shows "sample_n m (nat n) (rng w) = (Inr (param_grid gs), rng w1)"
  using assms
  by (auto simp: init_def Let_def split: if_splits prod.splits sum.splits list.splits)

lemma repeat_runs_total:
  assumes "\<And>n m a b wv pr ps. \<exists>x. run_fixed_fast ext n m a b wv pr ps = Inr x"
  shows "\<exists>fl w1. repeat_runs ext gs plain prof profile params k w = (Inr fl, w1)"
proof (induction k arbitrary: w)
  case 0
  show ?case by simp
next
  case (Suc k)
  obtain x where x: "run_fixed_fast ext (length (calls w)) (model gs)
        (fst (if truthy profile then prof else plain))
        (snd (if truthy profile then prof else plain)) (wvfp gs) profile params = Inr x"
    using assms by blast
  obtain w0 where c: "call_run_fixed_fast ext gs plain prof profile params w = (Inr x, w0)"
    using x by (simp add: call_run_fixed_fast_eq)
  from Suc [of w0] obtain fl w1
    where "repeat_runs ext gs plain prof profile params k w0 = (Inr fl, w1)" by blast
  with c show ?case by simp
qed

lemma fixed_total:
  fixes ext :: "'d externals"
  assumes init: "init m wv rd rp c p lf w0 = (Inr gs, w1)"
    and loads: "\<And>fp b. \<exists>d. load_data ext fp b = Inr d"
    and runs: "\<And>n m a b wv pr ps. \<exists>x. run_fixed_fast ext n m a b wv pr ps = Inr x"
  shows "\<exists>gs' w2. fixed ext gs trainfp testfp w1 = (Inr gs', w2)"
proof -
  note f = init_Inr_fields [OF init]
  obtain tr trp te tep where l: "load_data ext (path_join (path gs) trainfp) False = Inr tr"
    "load_data ext (path_join (path gs) trainfp) True = Inr trp"
    "load_data ext (path_join (path gs) testfp) False = Inr te"
    "load_data ext (path_join (path gs) testfp) True = Inr tep"
    using loads by meson
  define w4 :: "'d world" where "w4 = w1\<lparr>calls := calls w1 @
          [LoadData (path_join (path gs) trainfp) False,
           LoadData (path_join (path gs) trainfp) True,
           LoadData (path_join (path gs) testfp) False,
           LoadData (path_join (path gs) testfp) True]\<rparr>"
  have body: "\<exists>q' wb. fixed_body ext gs (tr, te) (trp, tep) q w = (Inr q', wb) \<and> \<not> csv_closed wb"
    if q: "q \<in> set (param_grid gs)" and op: "\<not> csv_closed w" for q and w :: "'d world"
  proof -
    define profile where "profile = fst (dict_pop ''profile'' PNone q)"
    from repeat_runs_total [OF runs] obtain fl wa
      where r: "repeat_runs ext gs (tr, te) (trp, tep) profile (popped q) (nat (repeat gs)) w
                = (Inr fl, wa)" by blast
    from repeat_runs_Inr [OF r] have len: "length fl = nat (repeat gs)"
      and wa: "\<not> csv_closed wa" using op by auto
    from few_scores(1) [where ext = ext, OF init q _ wa, of fl] len f
    have "result2csvrow ext gs (popped q) fl wa
          = (Inr (), wa\<lparr>csv := csv wa @
              [dict_to_list (fieldnames gs) (result_row ext (popped q) fl)]\<rparr>)"
      by simp
    with r wa show ?thesis
      by (simp add: fixed_body_def filter_useless_combs_def split_def Let_def popped_def
          profile_def)
  qed
  have "\<not> csv_closed w4" using f by (simp add: w4_def)
  from for_params_total [of "param_grid gs" "\<lambda>w. \<not> csv_closed w"
      "fixed_body ext gs (tr, te) (trp, tep)" w4, OF body this]
  obtain grid w5
    where "for_params (fixed_body ext gs (tr, te) (trp, tep)) (param_grid gs) w4 = (Inr grid, w5)"
    by blast
  then show ?thesis using l by (simp add: fixed_def Let_def call_load_data_eq w4_def)
qed

lemma xval_total:
  fixes ext :: "'d externals"
  assumes init: "init m wv rd rp c p lf w0 = (Inr gs, w1)"
    and loads: "\<And>fp b. \<exists>d. load_data ext fp b = Inr d"
    and runs: "\<And>n m a wv pr k ps.
                 \<exists>fl. run_xval ext n m a wv pr k ps = Inr fl \<and> length fl \<le> nat rp"
  shows "\<exists>gs' w2. xval ext gs datafp w1 = (Inr gs', w2)"
proof -
  note f = init_Inr_fields [OF init]
  obtain d dp where l: "load_data ext (path_join (path gs) datafp) False = Inr d"
    "load_data ext (path_join (path gs) datafp) True = Inr dp"
    using loads by meson
  define w2 :: "'d world" where "w2 = w1\<lparr>calls := calls w1 @
          [LoadData (path_join (path gs) datafp) False,
           LoadData (path_join (path gs) datafp) True]\<rparr>"
  have body: "\<exists>q' wb. xval_body ext gs d dp q w = (Inr q', wb) \<and> \<not> csv_closed wb"
    if q: "q \<in> set (param_grid gs)" and op: "\<not> csv_closed w" for q and w :: "'d world"
  proof -
    define profile where "profile = fst (dict_pop ''profile'' PNone q)"
    obtain fl wa where r: "call_run_xval ext gs d dp profile (popped q) w = (Inr fl, wa)"
      and len: "length fl \<le> nat rp" and wa: "\<not> csv_closed wa"
      using runs op by (simp add: call_run_xval_eq) meson
    from few_scores(1) [where ext = ext, OF init q len wa]
    have "result2csvrow ext gs (popped q) fl wa
          = (Inr (), wa\<lparr>csv := csv wa @
              [dict_to_list (fieldnames gs) (result_row ext (popped q) fl)]\<rparr>)" .
    with r wa show ?thesis
      by (simp add: xval_body_def filter_useless_combs_def split_def Let_def popped_def
          profile_def)
  qed
  have "\<not> csv_closed w2" using f by (simp add: w2_def)
  from for_params_total [of "param_grid gs" "\<lambda>w. \<not> csv_closed w"
      "xval_body ext gs d dp" w2, OF body this]
  obtain grid w3
    where "for_params (xval_body ext gs d dp) (param_grid gs) w2 = (Inr grid, w3)"
    by blast
  then show ?thesis using l by (simp add: xval_def Let_def call_load_data_eq w2_def)
qed

end
